(* ===== verification/Prelude.thy ===== *)
theory Prelude
  imports Main
begin

section \<open>Prelude: shared names, collections and list lemmas\<close>

text \<open>
  The names the model of \<^verbatim>\<open>src/app.py\<close> uses for its types, the
  collections of facts the component theories fill, and the generic facts on lists that
  the tokenizer and validator proofs share (Python slices, prefixes of a list read by
  index, filtering a concatenation).
\<close>

named_theorems index_bounds
  "how far each scanning loop of the tokenizer moves its index"

named_theorems classify_simps
  "evaluation rules of the token classifier on the fixed vocabularies"

type_synonym token = string
type_synonym position = nat

text \<open>Python's \<^verbatim>\<open>xs[a:b]\<close> for \<open>0 \<le> a \<le> b\<close>.\<close>

definition slice :: "'a list \<Rightarrow> nat \<Rightarrow> nat \<Rightarrow> 'a list" where
  "slice xs a b = take (b - a) (drop a xs)"

lemma slice_append_drop:
  assumes "a \<le> b"
  shows "slice xs a b @ drop b xs = drop a xs"
proof -
  from assms have "drop b xs = drop (b - a) (drop a xs)"
    by (simp add: drop_drop)
  then show ?thesis
    by (simp only: slice_def append_take_drop_id)
qed

lemma length_slice [simp]:
  "b \<le> length xs \<Longrightarrow> length (slice xs a b) = b - a"
  by (simp add: slice_def)

lemma slice_nonempty:
  "a < b \<Longrightarrow> b \<le> length xs \<Longrightarrow> slice xs a b \<noteq> []"
  by (simp add: slice_def)

lemma set_slice:
  "set (slice xs a b) \<subseteq> set (drop a xs)"
  by (auto simp: slice_def dest: in_set_takeD)

lemma nth_slice:
  "k < b - a \<Longrightarrow> b \<le> length xs \<Longrightarrow> slice xs a b ! k = xs ! (a + k)"
  by (simp add: slice_def)

lemma in_set_slice_nth:
  assumes "x \<in> set (slice xs a b)" and "b \<le> length xs"
  obtains k where "a \<le> k" and "k < b" and "x = xs ! k"
proof -
  from assms(1) obtain m where m: "m < length (slice xs a b)" and x: "x = slice xs a b ! m"
    by (auto simp: in_set_conv_nth)
  with assms(2) have "m < b - a" by simp
  with assms(2) x have "a \<le> a + m" "a + m < b" "x = xs ! (a + m)"
    by (simp_all add: nth_slice)
  then show ?thesis by (rule that)
qed

lemma drop_nth_Cons:
  "i < length xs \<Longrightarrow> drop i xs = xs ! i # drop (Suc i) xs"
  by (simp add: Cons_nth_drop_Suc)

lemma filter_concat_map:
  "filter P (concat xss) = concat (map (filter P) xss)"
  by (induction xss) simp_all

lemma filter_filter_weaker:
  "(\<And>x. P x \<Longrightarrow> Q x) \<Longrightarrow> filter P (filter Q xs) = filter P xs"
  by (induction xs) auto


lemma slice_empty [simp]: "slice xs a a = []"
  by (simp add: slice_def)

lemma slice_Cons:
  "j < length xs \<Longrightarrow> j < k \<Longrightarrow> slice xs j k = xs ! j # slice xs (Suc j) k"
  by (simp add: slice_def drop_nth_Cons take_Cons' Suc_diff_Suc)

lemma slice_append:
  assumes "a \<le> b" and "b \<le> c"
  shows "slice xs a b @ slice xs b c = slice xs a c"
proof -
  have "c - a = (b - a) + (c - b)" using assms by simp
  then have "take (c - a) (drop a xs) = take (b - a) (drop a xs) @ take (c - b) (drop (b - a) (drop a xs))"
    by (simp only: take_add)
  also have "drop (b - a) (drop a xs) = drop b xs" using assms(1) by simp
  finally show ?thesis by (simp add: slice_def)
qed

lemma slice_Suc_single: "j < length xs \<Longrightarrow> slice xs j (Suc j) = [xs ! j]"
  by (simp add: slice_Cons)

lemma takeWhile_drop_Cons:
  "i < length xs \<Longrightarrow> P (xs ! i) \<Longrightarrow> takeWhile P (drop i xs) = xs ! i # takeWhile P (drop (Suc i) xs)"
  by (simp add: drop_nth_Cons)

lemma takeWhile_drop_Nil:
  "\<not> (i < length xs \<and> P (xs ! i)) \<Longrightarrow> takeWhile P (drop i xs) = []"
  by (cases "i < length xs") (simp_all add: drop_nth_Cons)

lemma list_ex_if_all: "list_all P xs \<Longrightarrow> list_ex P xs \<longleftrightarrow> xs \<noteq> []"
  by (cases xs) auto

lemmas list_index_facts = drop_nth_Cons slice_append_drop length_slice

end
