(* ===== verification/Py_Runtime.thy ===== *)
theory Py_Runtime
  imports Prelude
begin

section \<open>The Python built-ins the checker calls\<close>

text \<open>
  \<^verbatim>\<open>src/app.py\<close> relies on Python's string predicates (\<^verbatim>\<open>str.isspace\<close>,
  \<^verbatim>\<open>isdigit\<close>, \<^verbatim>\<open>isalpha\<close>, \<^verbatim>\<open>isalnum\<close>), on \<^verbatim>\<open>str.strip\<close>, on
  \<^verbatim>\<open>float(token)\<close> as a recogniser of numbers, and on f-string formatting of
  positions and \<^verbatim>\<open>', '.join\<close>. A Python string is a sequence of code points; the
  model reads an Isabelle \<open>char\<close> as the code point \<open>of_char c < 256\<close> (Latin-1),
  so every input whose code points are below 256 is covered, and each predicate below is
  Python's own on that range (the Unicode categories of CPython's tables, not only ASCII:
  \<open>'\<^bsup>2\<^esup>'.isdigit()\<close> is true, \<open>'\<^bsup>2\<^esup>'\<close> is no decimal digit for
  \<^verbatim>\<open>float\<close>).
\<close>

subsection \<open>Character predicates\<close>

definition py_isspace :: "char \<Rightarrow> bool" where
  "py_isspace c \<longleftrightarrow>
     (let n = of_char c :: nat in
      (9 \<le> n \<and> n \<le> 13) \<or> (28 \<le> n \<and> n \<le> 32) \<or> n = 133 \<or> n = 160)"

text \<open>Decimal digits (Unicode category Nd): the only ones below 256 are ASCII.\<close>

definition py_isdecimal :: "char \<Rightarrow> bool" where
  "py_isdecimal c \<longleftrightarrow> (let n = of_char c :: nat in 48 \<le> n \<and> n \<le> 57)"

text \<open>\<^verbatim>\<open>isdigit\<close> adds the superscripts two, three and one.\<close>

definition py_isdigit :: "char \<Rightarrow> bool" where
  "py_isdigit c \<longleftrightarrow>
     (let n = of_char c :: nat in (48 \<le> n \<and> n \<le> 57) \<or> n = 178 \<or> n = 179 \<or> n = 185)"

text \<open>Letters (categories Lu, Ll, Lt, Lm, Lo) below 256.\<close>

definition py_isalpha :: "char \<Rightarrow> bool" where
  "py_isalpha c \<longleftrightarrow>
     (let n = of_char c :: nat in
      (65 \<le> n \<and> n \<le> 90) \<or> (97 \<le> n \<and> n \<le> 122) \<or> n = 170 \<or> n = 181 \<or> n = 186 \<or>
      (192 \<le> n \<and> n \<le> 214) \<or> (216 \<le> n \<and> n \<le> 246) \<or> 248 \<le> n)"

text \<open>
  \<^verbatim>\<open>isalnum\<close> is \<^verbatim>\<open>isalpha or isdecimal or isdigit or isnumeric\<close>; the
  numeric characters below 256 that are not digits are the vulgar fractions 188--190.
\<close>

definition py_isalnum :: "char \<Rightarrow> bool" where
  "py_isalnum c \<longleftrightarrow>
     py_isalpha c \<or> py_isdigit c \<or> (let n = of_char c :: nat in 188 \<le> n \<and> n \<le> 190)"

lemma py_isalpha_isalnum: "py_isalpha c \<Longrightarrow> py_isalnum c"
  by (simp add: py_isalnum_def)

lemma py_isdigit_isalnum: "py_isdigit c \<Longrightarrow> py_isalnum c"
  by (simp add: py_isalnum_def)

lemma py_isdecimal_isdigit: "py_isdecimal c \<Longrightarrow> py_isdigit c"
  by (simp add: py_isdecimal_def py_isdigit_def Let_def)

lemma py_isdigit_not_space: "py_isdigit c \<Longrightarrow> \<not> py_isspace c"
  by (auto simp: py_isdigit_def py_isspace_def Let_def)

lemma py_isalnum_not_space: "py_isalnum c \<Longrightarrow> \<not> py_isspace c"
  by (auto simp: py_isalnum_def py_isalpha_def py_isdigit_def py_isspace_def Let_def)

lemmas py_char_defs = py_isspace_def py_isdecimal_def py_isdigit_def py_isalpha_def
  py_isalnum_def

subsection \<open>\<^verbatim>\<open>str.strip\<close>\<close>

definition py_strip :: "string \<Rightarrow> string" where
  "py_strip s = rev (dropWhile py_isspace (rev (dropWhile py_isspace s)))"

lemma py_strip_empty_iff: "py_strip s = [] \<longleftrightarrow> list_all py_isspace s"
proof -
  have "rev (dropWhile py_isspace (rev (dropWhile py_isspace s))) = [] \<longleftrightarrow>
        list_all py_isspace (dropWhile py_isspace s)"
    by (simp add: dropWhile_eq_Nil_conv list_all_iff)
  also have "\<dots> \<longleftrightarrow> list_all py_isspace s"
    by (induction s) auto
  finally show ?thesis by (simp add: py_strip_def)
qed

subsection \<open>\<^verbatim>\<open>float(s)\<close> as a recogniser\<close>

text \<open>
  \<^verbatim>\<open>is_number\<close> asks whether \<^verbatim>\<open>float(token)\<close> raises. The grammar
  \<^verbatim>\<open>float\<close> accepts is, after stripping white space:
  \<^verbatim>\<open>[sign] (floatnumber | "inf" | "infinity" | "nan")\<close>, the names in any case;
  \<^verbatim>\<open>floatnumber ::= number [("e"|"E") [sign] digitpart]\<close>,
  \<^verbatim>\<open>number ::= [digitpart] "." digitpart | digitpart ["."]\<close>,
  \<^verbatim>\<open>digitpart ::= digit (["_"] digit)*\<close> with decimal digits only.
\<close>

fun is_digitpart :: "string \<Rightarrow> bool" where
  "is_digitpart [] = False"
| "is_digitpart [c] = py_isdecimal c"
| "is_digitpart (c # d # s) =
     (py_isdecimal c \<and> (if d = CHR ''_'' then is_digitpart s else is_digitpart (d # s)))"

definition is_float_number_part :: "string \<Rightarrow> bool" where
  "is_float_number_part s =
     (let a = takeWhile (\<lambda>c. c \<noteq> CHR ''.'') s; b = dropWhile (\<lambda>c. c \<noteq> CHR ''.'') s in
      if b = [] then is_digitpart a
      else ((a = [] \<or> is_digitpart a) \<and> is_digitpart (tl b)) \<or> (is_digitpart a \<and> tl b = []))"

definition is_float_exponent :: "string \<Rightarrow> bool" where
  "is_float_exponent s =
     (case s of
        [] \<Rightarrow> False
      | c # r \<Rightarrow> if c = CHR ''+'' \<or> c = CHR ''-'' then is_digitpart r else is_digitpart s)"

definition is_floatnumber :: "string \<Rightarrow> bool" where
  "is_floatnumber s =
     (let m = takeWhile (\<lambda>c. c \<noteq> CHR ''e'' \<and> c \<noteq> CHR ''E'') s;
          x = dropWhile (\<lambda>c. c \<noteq> CHR ''e'' \<and> c \<noteq> CHR ''E'') s in
      is_float_number_part m \<and> (x = [] \<or> is_float_exponent (tl x)))"

definition ascii_lower :: "char \<Rightarrow> char" where
  "ascii_lower c =
     (let n = of_char c :: nat in
      if 65 \<le> n \<and> n \<le> 90 then ''abcdefghijklmnopqrstuvwxyz'' ! (n - 65) else c)"

definition is_abs_float :: "string \<Rightarrow> bool" where
  "is_abs_float s \<longleftrightarrow>
     map ascii_lower s \<in> {''inf'', ''infinity'', ''nan''} \<or> is_floatnumber s"

definition py_float_ok :: "string \<Rightarrow> bool" where
  "py_float_ok s =
     (case py_strip s of
        [] \<Rightarrow> False
      | c # r \<Rightarrow> if c = CHR ''+'' \<or> c = CHR ''-'' then is_abs_float r else is_abs_float (c # r))"

lemmas py_float_defs = py_float_ok_def is_abs_float_def is_floatnumber_def
  is_float_exponent_def is_float_number_part_def

text \<open>
  What \<^verbatim>\<open>float\<close> accepts on strings of digits and points: the digit parts are
  non-empty runs of decimal digits, and without an exponent a number is its number part.
\<close>

lemma is_digitpart_iff:
  "CHR ''_'' \<notin> set s \<Longrightarrow> is_digitpart s \<longleftrightarrow> s \<noteq> [] \<and> list_all py_isdecimal s"
  by (induction s rule: is_digitpart.induct) auto

lemma py_strip_nonspace_ends:
  assumes "s \<noteq> []" "\<not> py_isspace (hd s)" "\<not> py_isspace (last s)"
  shows "py_strip s = s"
proof -
  have "dropWhile py_isspace s = s" using assms(1,2) by (cases s) auto
  moreover have "dropWhile py_isspace (rev s) = rev s"
    using assms(1,3) by (cases "rev s") (auto simp: last_rev [symmetric])
  ultimately show ?thesis by (simp add: py_strip_def)
qed

lemma is_float_number_part_iff:
  assumes u: "CHR ''_'' \<notin> set r" and p: "count_list r (CHR ''.'') \<le> 1"
  shows "is_float_number_part r \<longleftrightarrow>
         list_all (\<lambda>c. py_isdecimal c \<or> c = CHR ''.'') r \<and> list_ex py_isdecimal r"
proof -
  define a where "a = takeWhile (\<lambda>c. c \<noteq> CHR ''.'') r"
  define b where "b = dropWhile (\<lambda>c. c \<noteq> CHR ''.'') r"
  have r: "r = a @ b" by (simp add: a_def b_def)
  have na: "CHR ''.'' \<notin> set a" unfolding a_def using set_takeWhileD by fastforce
  have ua: "CHR ''_'' \<notin> set a" and ub: "CHR ''_'' \<notin> set b" using u r by auto
  have dec_a: "list_all (\<lambda>c. py_isdecimal c \<or> c = CHR ''.'') a \<longleftrightarrow> list_all py_isdecimal a"
    using na by (auto simp: list_all_iff)
  have dig_a: "is_digitpart a \<longleftrightarrow> a \<noteq> [] \<and> list_all py_isdecimal a"
    by (rule is_digitpart_iff [OF ua])
  show ?thesis
  proof (cases b)
    case Nil
    have fp: "is_float_number_part r = is_digitpart a"
      unfolding is_float_number_part_def Let_def a_def [symmetric] b_def [symmetric] using Nil by simp
    show ?thesis
      unfolding fp dig_a using r Nil dec_a list_ex_if_all [of py_isdecimal a] by auto
  next
    case (Cons d b')
    have d: "d = CHR ''.''" using Cons unfolding b_def
      by (metis (mono_tags) dropWhile_eq_Cons_conv)
    have "count_list r (CHR ''.'') = count_list a (CHR ''.'') + Suc (count_list b' (CHR ''.''))"
      using r Cons d by simp
    with p na have nb: "CHR ''.'' \<notin> set b'" by (simp add: count_list_0_iff)
    have ub': "CHR ''_'' \<notin> set b'" using ub Cons by simp
    have dec_b: "list_all (\<lambda>c. py_isdecimal c \<or> c = CHR ''.'') b' \<longleftrightarrow> list_all py_isdecimal b'"
      using nb by (auto simp: list_all_iff)
    have dig_b: "is_digitpart b' \<longleftrightarrow> b' \<noteq> [] \<and> list_all py_isdecimal b'"
      by (rule is_digitpart_iff [OF ub'])
    have dot: "\<not> py_isdecimal (CHR ''.'')" by (simp add: py_char_defs)
    have fp: "is_float_number_part r =
              (((a = [] \<or> is_digitpart a) \<and> is_digitpart b') \<or> (is_digitpart a \<and> b' = []))"
      unfolding is_float_number_part_def Let_def a_def [symmetric] b_def [symmetric] using Cons by simp
    have all: "list_all (\<lambda>c. py_isdecimal c \<or> c = CHR ''.'') r \<longleftrightarrow>
               list_all py_isdecimal a \<and> list_all py_isdecimal b'"
      using r Cons d dec_a dec_b by simp
    have ex: "list_ex py_isdecimal r \<longleftrightarrow> list_ex py_isdecimal a \<or> list_ex py_isdecimal b'"
      using r Cons d dot by simp
    show ?thesis
      unfolding fp all ex dig_a dig_b
      using list_ex_if_all [of py_isdecimal a] list_ex_if_all [of py_isdecimal b']
      by (cases "a = []"; cases "b' = []") auto
  qed
qed

lemma is_floatnumber_no_exponent:
  "CHR ''e'' \<notin> set s \<Longrightarrow> CHR ''E'' \<notin> set s \<Longrightarrow> is_floatnumber s = is_float_number_part s"
proof -
  assume "CHR ''e'' \<notin> set s" "CHR ''E'' \<notin> set s"
  then have "\<forall>c\<in>set s. c \<noteq> CHR ''e'' \<and> c \<noteq> CHR ''E''" by blast
  then have tw: "takeWhile (\<lambda>c. c \<noteq> CHR ''e'' \<and> c \<noteq> CHR ''E'') s = s"
    and dw: "dropWhile (\<lambda>c. c \<noteq> CHR ''e'' \<and> c \<noteq> CHR ''E'') s = []"
    by (simp_all only: takeWhile_eq_all_conv dropWhile_eq_Nil_conv)
  show ?thesis by (simp only: is_floatnumber_def Let_def tw dw) simp
qed

lemma ascii_lower_nonalpha: "\<not> py_isalpha c \<Longrightarrow> ascii_lower c = c"
  by (auto simp: ascii_lower_def py_isalpha_def Let_def)

lemma is_abs_float_nonalpha:
  assumes "s \<noteq> []" and "\<not> py_isalpha (hd s)"
  shows "is_abs_float s = is_floatnumber s"
proof -
  obtain c r where s: "s = c # r" using assms(1) by (cases s) auto
  have "ascii_lower c = c" using assms(2) s by (simp add: ascii_lower_nonalpha)
  moreover have "c \<noteq> CHR ''i'' \<and> c \<noteq> CHR ''n''" using assms(2) s by (auto simp: py_isalpha_def)
  ultimately show ?thesis by (auto simp: is_abs_float_def s)
qed

subsection \<open>Formatting: \<^verbatim>\<open>f"{i}"\<close> and \<^verbatim>\<open>', '.join\<close>\<close>

fun show_nat :: "nat \<Rightarrow> string" where
  "show_nat n =
     (if n < 10 then [''0123456789'' ! n] else show_nat (n div 10) @ [''0123456789'' ! (n mod 10)])"

fun py_join :: "string \<Rightarrow> string list \<Rightarrow> string" where
  "py_join sep [] = []"
| "py_join sep [x] = x"
| "py_join sep (x # y # xs) = x @ sep @ py_join sep (y # xs)"

end
