(* ===== verification/Classifier.thy ===== *)
theory Classifier
  imports Py_Runtime
begin

section \<open>The token classifier\<close>

text \<open>
  The fixed vocabularies of \<^verbatim>\<open>MathSyntaxChecker.__init__\<close>
  (\<^verbatim>\<open>src/app.py\<close> lines 9--13), the predicates \<^verbatim>\<open>is_number\<close>,
  \<^verbatim>\<open>is_variable\<close>, \<^verbatim>\<open>is_function\<close> (lines 15--33), and the if/elif chain of
  \<^verbatim>\<open>check_syntax\<close> that gives a token its category (lines 154--168, and its shorter
  copy for the token after a leading minus, lines 132--141). A token is a Python
  \<^verbatim>\<open>str\<close>, here a \<open>string\<close>; the vocabularies are Python sets of strings.
\<close>

definition valid_operators :: "token set" where
  "valid_operators = {''+'', ''-'', ''*'', ''/'', ''^''}"

definition opening_brackets :: "token set" where
  "opening_brackets = {''('', ''['', ''{''}"

definition closing_brackets :: "token set" where
  "closing_brackets = {'')'', '']'', ''}''}"

definition bracket_pairs :: "token \<rightharpoonup> token" where
  "bracket_pairs = ['')'' \<mapsto> ''('', '']'' \<mapsto> ''['', ''}'' \<mapsto> ''{'']"

definition valid_functions :: "token set" where
  "valid_functions =
     {''sin'', ''cos'', ''tan'', ''log'', ''ln'', ''sqrt'', ''abs'', ''exp'', ''floor'',
      ''ceil'', ''round''}"

text \<open>\<^verbatim>\<open>is_number\<close>: \<^verbatim>\<open>float(token)\<close> does not raise.\<close>

definition is_number :: "token \<Rightarrow> bool" where
  "is_number t = py_float_ok t"

text \<open>
  \<^verbatim>\<open>is_variable\<close> reads \<^verbatim>\<open>token[0]\<close>, which raises \<^verbatim>\<open>IndexError\<close> on the
  empty string; the empty equation below is never reached from \<^verbatim>\<open>check_syntax\<close>,
  because the tokenizer never emits an empty token.
\<close>

fun is_variable :: "token \<Rightarrow> bool" where
  "is_variable [] = False"
| "is_variable (c # cs) =
     (if \<not> py_isalpha c \<and> c \<noteq> CHR ''_'' then False
      else if \<not> list_all (\<lambda>ch. py_isalnum ch \<or> ch = CHR ''_'') cs then False
      else if c # cs \<in> valid_functions then False
      else True)"

definition is_function :: "token \<Rightarrow> bool" where
  "is_function t \<longleftrightarrow> t \<in> valid_functions"

text \<open>The categories \<^verbatim>\<open>'number'\<close>, \<^verbatim>\<open>'function'\<close>, \<dots> of \<^verbatim>\<open>token_type\<close>.\<close>

datatype token_type = Number | Function | Variable | Operator | Open_bracket | Close_bracket

text \<open>Lines 154--168: the first predicate that holds decides; none is an error.\<close>

definition token_type_of :: "token \<Rightarrow> token_type option" where
  "token_type_of t =
     (if is_number t then Some Number
      else if is_function t then Some Function
      else if is_variable t then Some Variable
      else if t \<in> valid_operators then Some Operator
      else if t \<in> opening_brackets then Some Open_bracket
      else if t \<in> closing_brackets then Some Close_bracket
      else None)"

text \<open>Lines 132--141: the type of the token after a leading \<^verbatim>\<open>-\<close>.\<close>

definition unary_next_type :: "token \<Rightarrow> token_type option" where
  "unary_next_type t =
     (if is_number t then Some Number
      else if is_function t then Some Function
      else if is_variable t then Some Variable
      else if t \<in> opening_brackets then Some Open_bracket
      else None)"

text \<open>Line 130: \<^verbatim>\<open>allowed_after_unary_minus\<close>.\<close>

definition allowed_after_unary_minus :: "token_type list" where
  "allowed_after_unary_minus = [Number, Variable, Function, Open_bracket]"


subsection \<open>Evaluation on the fixed vocabularies\<close>

lemma symbol_not_number [classify_simps]:
  "t \<in> valid_operators \<union> opening_brackets \<union> closing_brackets \<Longrightarrow> \<not> is_number t"
  by (auto simp: valid_operators_def opening_brackets_def closing_brackets_def is_number_def
      py_float_defs py_strip_def py_char_defs ascii_lower_def)

lemma symbol_not_function [classify_simps]:
  "t \<in> valid_operators \<union> opening_brackets \<union> closing_brackets \<Longrightarrow> \<not> is_function t"
  by (auto simp: valid_operators_def opening_brackets_def closing_brackets_def is_function_def
      valid_functions_def)

lemma symbol_not_variable [classify_simps]:
  "t \<in> valid_operators \<union> opening_brackets \<union> closing_brackets \<Longrightarrow> \<not> is_variable t"
  by (auto simp: valid_operators_def opening_brackets_def closing_brackets_def py_char_defs)

lemma symbol_sets_disjoint [classify_simps]:
  "t \<in> opening_brackets \<Longrightarrow> t \<notin> valid_operators"
  "t \<in> closing_brackets \<Longrightarrow> t \<notin> valid_operators"
  "t \<in> closing_brackets \<Longrightarrow> t \<notin> opening_brackets"
  by (auto simp: valid_operators_def opening_brackets_def closing_brackets_def)

lemma token_type_of_Operator_iff:
  "token_type_of t = Some Operator \<longleftrightarrow> t \<in> valid_operators"
  using symbol_not_number symbol_not_function symbol_not_variable
  by (auto simp: token_type_of_def)

lemma token_type_of_Open_iff:
  "token_type_of t = Some Open_bracket \<longleftrightarrow> t \<in> opening_brackets"
  using symbol_not_number symbol_not_function symbol_not_variable symbol_sets_disjoint
  by (auto simp: token_type_of_def)

lemma token_type_of_Close_iff:
  "token_type_of t = Some Close_bracket \<longleftrightarrow> t \<in> closing_brackets"
  using symbol_not_number symbol_not_function symbol_not_variable symbol_sets_disjoint
  by (auto simp: token_type_of_def)

lemma bracket_pairs_closing:
  "t \<in> closing_brackets \<longleftrightarrow> (\<exists>ob. bracket_pairs t = Some ob)"
  by (auto simp: closing_brackets_def bracket_pairs_def split: if_splits)

lemma bracket_pairs_opening:
  "bracket_pairs t = Some ob \<Longrightarrow> ob \<in> opening_brackets"
  by (auto simp: opening_brackets_def bracket_pairs_def split: if_splits)


subsection \<open>\<^verbatim>\<open>float\<close> on identifier-shaped tokens\<close>

lemma is_digitpart_Cons: "is_digitpart (c # r) \<Longrightarrow> py_isdecimal c"
  by (cases r) auto

lemma ident_start_not_decimal: "py_isalpha c \<or> c = CHR ''_'' \<Longrightarrow> \<not> py_isdecimal c"
  by (auto simp: py_isalpha_def py_isdecimal_def Let_def)

lemma ident_start_not_floatnumber:
  assumes "py_isalpha c \<or> c = CHR ''_''"
  shows "\<not> is_floatnumber (c # r)"
proof -
  have nd: "\<not> py_isdecimal c" using assms by (rule ident_start_not_decimal)
  have nodot: "c \<noteq> CHR ''.''" using assms by (auto simp: py_isalpha_def)
  show ?thesis
  proof (cases "c = CHR ''e'' \<or> c = CHR ''E''")
    case True
    then show ?thesis by (auto simp: is_floatnumber_def is_float_number_part_def)
  next
    case False
    let ?m = "c # takeWhile (\<lambda>x. x \<noteq> CHR ''e'' \<and> x \<noteq> CHR ''E'') r"
    have "\<not> is_digitpart (c # takeWhile (\<lambda>x. x \<noteq> CHR ''.'') (takeWhile (\<lambda>x. x \<noteq> CHR ''e'' \<and> x \<noteq> CHR ''E'') r))"
      using nd is_digitpart_Cons by blast
    with False nodot show ?thesis
      by (auto simp: is_floatnumber_def is_float_number_part_def Let_def)
  qed
qed

lemma py_strip_no_space: "list_all (\<lambda>x. \<not> py_isspace x) t \<Longrightarrow> py_strip t = t"
proof -
  assume a: "list_all (\<lambda>x. \<not> py_isspace x) t"
  then have "dropWhile py_isspace t = t" by (cases t) auto
  moreover from a have "dropWhile py_isspace (rev t) = rev t" by (cases "rev t") (auto simp: list_all_iff)
  ultimately show ?thesis by (simp add: py_strip_def)
qed

end
