(* ===== verification/Brackets.thy ===== *)
theory Brackets
  imports Classifier
begin

section \<open>Properly nested brackets: the specification and the stack discipline\<close>

text \<open>
  What the bracket stack of \<^verbatim>\<open>check_syntax\<close> is meant to decide. The specification
  is the grammar \<open>S \<rightarrow> \<epsilon> | o S c | S S\<close> over bracket tokens, with \<open>o\<close> the
  opener that \<^verbatim>\<open>bracket_pairs\<close> gives for the closer \<open>c\<close>: the inductive predicate
  \<open>nested\<close>. The implementation is the discipline of lines 211--218 on its own:
  \<open>match_run\<close> pushes an opener, pops on a closer if the top is its partner, and
  ignores every other token. The refinement theorem \<open>match_run_iff_nested\<close> says that
  the stack run ends empty exactly on the words whose brackets are nested.
\<close>

inductive nested :: "token list \<Rightarrow> bool" where
  nested_empty: "nested []"
| nested_pair: "nested w \<Longrightarrow> bracket_pairs c = Some ob \<Longrightarrow> nested (ob # w @ [c])"
| nested_append: "nested u \<Longrightarrow> nested v \<Longrightarrow> nested (u @ v)"

definition is_bracket :: "token \<Rightarrow> bool" where
  "is_bracket t \<longleftrightarrow> t \<in> opening_brackets \<or> t \<in> closing_brackets"

fun match_run :: "token list \<Rightarrow> token list \<Rightarrow> token list option" where
  "match_run st [] = Some st"
| "match_run st (t # ts) =
     (if t \<in> opening_brackets then match_run (st @ [t]) ts
      else if t \<in> closing_brackets then
        (if st \<noteq> [] \<and> bracket_pairs t = Some (last st) then match_run (butlast st) ts else None)
      else match_run st ts)"

lemma pair_closing_not_opening:
  "bracket_pairs c = Some ob \<Longrightarrow> c \<in> closing_brackets \<and> c \<notin> opening_brackets \<and> ob \<in> opening_brackets"
  using bracket_pairs_closing bracket_pairs_opening symbol_sets_disjoint(3) by blast

lemma match_run_append:
  "match_run st (xs @ ys) = (case match_run st xs of None \<Rightarrow> None | Some st' \<Rightarrow> match_run st' ys)"
  by (induction st xs rule: match_run.induct) auto

lemma match_run_filter: "match_run st (filter is_bracket ts) = match_run st ts"
  by (induction st ts rule: match_run.induct) (auto simp: is_bracket_def)

text \<open>Completeness: a nested word is matched from any stack and leaves it as it was.\<close>

lemma nested_match_run: "nested w \<Longrightarrow> match_run st (w @ r) = match_run st r"
proof (induction w arbitrary: st r rule: nested.induct)
  case nested_empty
  then show ?case by simp
next
  case (nested_pair w c ob)
  from pair_closing_not_opening [OF nested_pair.hyps(2)]
  have c: "c \<in> closing_brackets" "c \<notin> opening_brackets" and ob: "ob \<in> opening_brackets"
    by simp_all
  have "match_run st ((ob # w @ [c]) @ r) = match_run (st @ [ob]) (w @ c # r)"
    using ob by simp
  also have "\<dots> = match_run (st @ [ob]) (c # r)"
    by (rule nested_pair.IH)
  also have "\<dots> = match_run st r"
    using c nested_pair.hyps(2) by simp
  finally show ?case .
next
  case (nested_append u v)
  then show ?case by simp
qed

text \<open>Inserting a matched pair anywhere into a nested word keeps it nested.\<close>

lemma nested_insert_pair:
  assumes "nested (u @ v)" and "bracket_pairs c = Some ob"
  shows "nested (u @ ob # c # v)"
  using assms(1)
proof (induction "u @ v" arbitrary: u v rule: nested.induct)
  case nested_empty
  then have "u = []" "v = []" by simp_all
  with nested.nested_pair [OF nested.nested_empty assms(2)] show ?case by simp
next
  case (nested_pair w c' ob')
  have whole: "nested (ob' # w @ [c'])"
    by (rule nested.nested_pair [OF nested_pair.hyps(1,3)])
  have pair: "nested [ob, c]"
    using nested.nested_pair [OF nested.nested_empty assms(2)] by simp
  show ?case
  proof (cases u)
    case Nil
    with nested_pair.hyps(4) nested.nested_append [OF pair whole] show ?thesis by simp
  next
    case (Cons x u')
    with nested_pair.hyps(4) have x: "x = ob'" and uv: "u' @ v = w @ [c']" by simp_all
    show ?thesis
    proof (cases v rule: rev_cases)
      case Nil
      with nested_pair.hyps(4) nested.nested_append [OF whole pair] show ?thesis by simp
    next
      case (snoc v' y)
      with uv have w: "w = u' @ v'" and y: "y = c'" by simp_all
      from nested_pair.hyps(2) [OF w] have "nested (u' @ ob # c # v')" .
      from nested.nested_pair [OF this nested_pair.hyps(3)]
      have "nested (ob' # (u' @ ob # c # v') @ [c'])" .
      with Cons x snoc y show ?thesis by simp
    qed
  qed
next
  case (nested_append u0 v0)
  from \<open>u0 @ v0 = u @ v\<close> [unfolded append_eq_append_conv2]
  obtain us where "u0 = u @ us \<and> us @ v0 = v \<or> u0 @ us = u \<and> v0 = us @ v"
    by blast
  then show ?case
  proof
    assume a: "u0 = u @ us \<and> us @ v0 = v"
    then have "nested (u @ ob # c # us)" by (simp add: nested_append.hyps(2))
    from nested.nested_append [OF this nested_append.hyps(3)] a show ?thesis by simp
  next
    assume b: "u0 @ us = u \<and> v0 = us @ v"
    then have "nested (us @ ob # c # v)" by (simp add: nested_append.hyps(4))
    from nested.nested_append [OF nested_append.hyps(1) this]
    have "nested ((u0 @ us) @ ob # c # v)" by simp
    with b show ?thesis by simp
  qed
qed

text \<open>Soundness: a run that ends with an empty stack read a nested word.\<close>

lemma match_run_sound: "match_run st w = Some [] \<Longrightarrow> nested (st @ filter is_bracket w)"
proof (induction st w rule: match_run.induct)
  case (1 st)
  then show ?case by (simp add: nested_empty)
next
  case (2 st t ts)
  show ?case
  proof (cases "t \<in> opening_brackets")
    case True
    with "2.prems" "2.IH"(1) show ?thesis by (simp add: is_bracket_def)
  next
    case notopen: False
    show ?thesis
    proof (cases "t \<in> closing_brackets")
      case True
      with notopen "2.prems" have ne: "st \<noteq> []" and pr: "bracket_pairs t = Some (last st)"
        and run: "match_run (butlast st) ts = Some []"
        by (simp_all split: if_splits)
      from "2.IH"(2) [OF notopen True _ run] ne pr
      have "nested (butlast st @ filter is_bracket ts)" by simp
      from nested_insert_pair [OF this pr]
      have n: "nested (butlast st @ last st # t # filter is_bracket ts)" .
      have eq: "st @ t # filter is_bracket ts = butlast st @ last st # t # filter is_bracket ts"
        using ne by (metis append_butlast_last_id append.assoc append_Cons append_Nil)
      have f: "filter is_bracket (t # ts) = t # filter is_bracket ts"
        using True by (simp add: is_bracket_def)
      show ?thesis unfolding f eq by (rule n)
    next
      case False
      with notopen "2.prems" "2.IH"(3) show ?thesis by (simp add: is_bracket_def)
    qed
  qed
qed

theorem match_run_iff_nested: "match_run [] w = Some [] \<longleftrightarrow> nested (filter is_bracket w)"
proof
  assume "match_run [] w = Some []"
  from match_run_sound [OF this] show "nested (filter is_bracket w)" by simp
next
  assume "nested (filter is_bracket w)"
  from nested_match_run [OF this, of "[]" "[]"] show "match_run [] w = Some []"
    by (simp add: match_run_filter)
qed

end
