(* ===== verification/Tokenizer.thy ===== *)
theory Tokenizer
  imports Brackets
begin

section \<open>The tokenizer\<close>

text \<open>
  \<^verbatim>\<open>MathSyntaxChecker.tokenize\<close> (\<^verbatim>\<open>src/app.py\<close> lines 35--107) walks the
  expression with an index \<open>i\<close> and appends token texts to \<open>tokens\<close>; it returns
  \<^verbatim>\<open>(tokens, None)\<close> or \<^verbatim>\<open>(None, message)\<close>, here \<open>Inr tokens\<close> or
  \<open>Inl error\<close>. Each inner \<^verbatim>\<open>while\<close> is a function of its own, with the index as
  argument and the distance to the end of the string as termination measure: skipping the
  blanks after a sign (lines 58--61), the digit-and-point run of a number (lines 65--74 and
  84--91, the same loop), the run of an identifier (lines 96--98). The outer loop is
  \<open>tokenize_loop\<close>; every branch moves \<open>i\<close> forward, which is its termination
  argument.
\<close>

datatype tok_error =
  Invalid_number_format position
| Invalid_character char position

function skip_spaces :: "string \<Rightarrow> nat \<Rightarrow> nat" where
  "skip_spaces e j =
     (if j < length e \<and> py_isspace (e ! j) then skip_spaces e (Suc j) else j)"
  by pat_completeness auto
termination
  by (relation "measure (\<lambda>(e, j). length e - j)") auto

declare skip_spaces.simps [simp del]

text \<open>
  The number loop: \<open>seen\<close> is \<^verbatim>\<open>decimal_point_seen\<close>; a second point stops the
  tokenizer with its position.
\<close>

function scan_number :: "string \<Rightarrow> nat \<Rightarrow> bool \<Rightarrow> tok_error + nat" where
  "scan_number e i seen =
     (if i < length e \<and> (py_isdigit (e ! i) \<or> e ! i = CHR ''.'') then
        (if e ! i = CHR ''.'' then
           (if seen then Inl (Invalid_number_format i) else scan_number e (Suc i) True)
         else scan_number e (Suc i) seen)
      else Inr i)"
  by pat_completeness auto
termination
  by (relation "measure (\<lambda>(e, i, seen). length e - i)") auto

declare scan_number.simps [simp del]

function scan_ident :: "string \<Rightarrow> nat \<Rightarrow> nat" where
  "scan_ident e j =
     (if j < length e \<and> (py_isalnum (e ! j) \<or> e ! j = CHR ''_'') then scan_ident e (Suc j)
      else j)"
  by pat_completeness auto
termination
  by (relation "measure (\<lambda>(e, j). length e - j)") auto

declare scan_ident.simps [simp del]

text \<open>
  Lines 45--48: when a \<^verbatim>\<open>-\<close> may start a signed number. The code looks both at the
  character before it and at the last token emitted.
\<close>

definition sign_context :: "string \<Rightarrow> nat \<Rightarrow> token list \<Rightarrow> bool" where
  "sign_context e i tokens \<longleftrightarrow>
     i = 0 \<or> [e ! (i - 1)] \<in> valid_operators \<or> [e ! (i - 1)] \<in> opening_brackets \<or>
     (0 < i \<and> tokens \<noteq> [] \<and> last tokens \<in> valid_operators) \<or>
     (0 < i \<and> tokens \<noteq> [] \<and> last tokens \<in> opening_brackets)"

lemma skip_spaces_ge [index_bounds]: "j \<le> skip_spaces e j"
  by (induction e j rule: skip_spaces.induct) (subst skip_spaces.simps, force)

lemma scan_ident_ge [index_bounds]: "j \<le> scan_ident e j"
  by (induction e j rule: scan_ident.induct) (subst scan_ident.simps, force)

lemma scan_ident_gt [index_bounds]:
  "j < length e \<Longrightarrow> py_isalnum (e ! j) \<or> e ! j = CHR ''_'' \<Longrightarrow> j < scan_ident e j"
  using scan_ident_ge [of "Suc j" e] by (subst scan_ident.simps) force

lemma scan_number_ge [index_bounds]: "scan_number e i seen = Inr k \<Longrightarrow> i \<le> k"
  by (induction e i seen rule: scan_number.induct)
    (subst (asm) scan_number.simps, force split: if_split_asm)

lemma scan_number_gt [index_bounds]:
  "scan_number e i seen = Inr k \<Longrightarrow> i < length e \<Longrightarrow> py_isdigit (e ! i) \<or> e ! i = CHR ''.''
   \<Longrightarrow> i < k"
  using scan_number_ge [of e "Suc i"]
  by (subst (asm) scan_number.simps) (force split: if_split_asm)

text \<open>The outer loop, lines 38--107, one branch per \<^verbatim>\<open>if\<close> of the body.\<close>

function tokenize_loop :: "string \<Rightarrow> nat \<Rightarrow> token list \<Rightarrow> tok_error + token list" where
  "tokenize_loop e i tokens =
     (if i < length e then
        (let c = e ! i in
         if py_isspace c then tokenize_loop e (Suc i) tokens
         else if c = CHR ''-'' \<and> sign_context e i tokens then
           (if Suc i < length e \<and> e ! Suc i = CHR ''-'' then tokenize_loop e (Suc i) (tokens @ [[c]])
            else
              (let j = skip_spaces e (Suc i) in
               if j < length e \<and> (py_isdigit (e ! j) \<or> e ! j = CHR ''.'') then
                 (case scan_number e j False of
                    Inl err \<Rightarrow> Inl err
                  | Inr k \<Rightarrow> tokenize_loop e k (tokens @ [slice e i k]))
               else tokenize_loop e (Suc i) (tokens @ [[c]])))
         else if py_isdigit c \<or> (c = CHR ''.'' \<and> Suc i < length e \<and> py_isdigit (e ! Suc i)) then
           (case scan_number e i False of
              Inl err \<Rightarrow> Inl err
            | Inr j \<Rightarrow> tokenize_loop e j (tokens @ [slice e i j]))
         else if py_isalpha c \<or> c = CHR ''_'' then
           (let j = scan_ident e i in tokenize_loop e j (tokens @ [slice e i j]))
         else if [c] \<in> valid_operators \<or> [c] \<in> opening_brackets \<or> [c] \<in> closing_brackets then
           tokenize_loop e (Suc i) (tokens @ [[c]])
         else Inl (Invalid_character c i))
      else Inr tokens)"
  by pat_completeness auto
termination
  apply (relation "measure (\<lambda>(e, i, tokens). length e - i)")
          apply simp_all
  subgoal by linarith
  subgoal for e i tokens xa b
    using skip_spaces_ge [of "Suc i" e] scan_number_ge [of e "skip_spaces e (Suc i)" False b]
    by linarith
  subgoal for e i tokens x b
    using scan_number_gt [of e i False b] by auto
  subgoal for e i tokens x xa
    using scan_ident_gt [of i e] py_isalpha_isalnum [of "e ! i"] by auto
  done

declare tokenize_loop.simps [simp del]


subsection \<open>Bounds and contents of the scanning loops\<close>

abbreviation number_char :: "char \<Rightarrow> bool" where
  "number_char c \<equiv> py_isdigit c \<or> c = CHR ''.''"

abbreviation ident_char :: "char \<Rightarrow> bool" where
  "ident_char c \<equiv> py_isalnum c \<or> c = CHR ''_''"

lemma skip_spaces_le [index_bounds]: "j \<le> length e \<Longrightarrow> skip_spaces e j \<le> length e"
  by (induction e j rule: skip_spaces.induct) (subst skip_spaces.simps, force)

lemma scan_ident_le [index_bounds]: "j \<le> length e \<Longrightarrow> scan_ident e j \<le> length e"
  by (induction e j rule: scan_ident.induct) (subst scan_ident.simps, force)

lemma scan_number_le [index_bounds]:
  "scan_number e i seen = Inr k \<Longrightarrow> i \<le> length e \<Longrightarrow> k \<le> length e"
  by (induction e i seen rule: scan_number.induct)
    (subst (asm) scan_number.simps, force split: if_split_asm)

lemma skip_spaces_chars: "list_all py_isspace (slice e j (skip_spaces e j))"
proof (induction e j rule: skip_spaces.induct)
  case (1 e j)
  show ?case
  proof (cases "j < length e \<and> py_isspace (e ! j)")
    case True
    then have eq: "skip_spaces e j = skip_spaces e (Suc j)" by (subst skip_spaces.simps) simp
    from True have "j < skip_spaces e (Suc j)"
      using skip_spaces_ge [of "Suc j" e] by simp
    with True "1.IH" eq show ?thesis by (simp add: slice_Cons)
  next
    case False
    then show ?thesis by (subst skip_spaces.simps) auto
  qed
qed

lemma scan_ident_chars: "list_all ident_char (slice e j (scan_ident e j))"
proof (induction e j rule: scan_ident.induct)
  case (1 e j)
  show ?case
  proof (cases "j < length e \<and> ident_char (e ! j)")
    case True
    then have eq: "scan_ident e j = scan_ident e (Suc j)" by (subst scan_ident.simps) simp
    from True have "j < scan_ident e (Suc j)"
      using scan_ident_ge [of "Suc j" e] by simp
    with True "1.IH" eq show ?thesis by (simp add: slice_Cons)
  next
    case False
    then show ?thesis by (subst scan_ident.simps) auto
  qed
qed

text \<open>
  What the number loop consumed: digits and points only, and at most one point counting
  the one already seen.
\<close>

lemma scan_number_chars:
  "scan_number e i seen = Inr k \<Longrightarrow>
   list_all number_char (slice e i k) \<and>
   count_list (slice e i k) (CHR ''.'') + (if seen then 1 else 0) \<le> 1"
proof (induction e i seen rule: scan_number.induct)
  case (1 e i seen)
  show ?case
  proof (cases "i < length e \<and> number_char (e ! i)")
    case False
    with "1.prems" show ?thesis by (subst (asm) scan_number.simps) simp
  next
    case True
    show ?thesis
    proof (cases "e ! i = CHR ''.''")
      case dot: True
      with True "1.prems" have ns: "\<not> seen" and run: "scan_number e (Suc i) True = Inr k"
        by (subst (asm) scan_number.simps, simp split: if_split_asm)+
      from scan_number_ge [OF run] have "i < k" by simp
      with "1.IH"(1) [OF True dot ns run] True dot ns show ?thesis by (simp add: slice_Cons)
    next
      case nodot: False
      with True "1.prems" have run: "scan_number e (Suc i) seen = Inr k"
        by (subst (asm) scan_number.simps) simp
      from scan_number_ge [OF run] have "i < k" by simp
      with "1.IH"(2) [OF True nodot run] True nodot show ?thesis by (simp add: slice_Cons)
    qed
  qed
qed

lemma scan_number_Inl:
  "scan_number e i seen = Inl err \<Longrightarrow>
   \<exists>p. err = Invalid_number_format p \<and> i \<le> p \<and> p < length e \<and> e ! p = CHR ''.'' \<and>
       list_all number_char (slice e i p) \<and>
       count_list (slice e i p) (CHR ''.'') + (if seen then 1 else 0) = 1"
proof (induction e i seen rule: scan_number.induct)
  case (1 e i seen)
  show ?case
  proof (cases "i < length e \<and> number_char (e ! i)")
    case False
    with "1.prems" show ?thesis by (subst (asm) scan_number.simps) simp
  next
    case True
    show ?thesis
    proof (cases "e ! i = CHR ''.''")
      case dot: True
      show ?thesis
      proof (cases seen)
        case True
        with dot \<open>i < length e \<and> number_char (e ! i)\<close> "1.prems" show ?thesis
          by (subst (asm) scan_number.simps) (auto intro!: exI [of _ i])
      next
        case False
        with True dot "1.prems" have run: "scan_number e (Suc i) True = Inl err"
          by (subst (asm) scan_number.simps) simp
        from "1.IH"(1) [OF True dot False run] obtain p where
          p: "err = Invalid_number_format p" "Suc i \<le> p" "p < length e" "e ! p = CHR ''.''"
             "list_all number_char (slice e (Suc i) p)" "count_list (slice e (Suc i) p) (CHR ''.'') = 0"
          by auto
        with True dot False show ?thesis by (intro exI [of _ p]) (simp add: slice_Cons)
      qed
    next
      case nodot: False
      with True "1.prems" have run: "scan_number e (Suc i) seen = Inl err"
        by (subst (asm) scan_number.simps) simp
      from "1.IH"(2) [OF True nodot run] obtain p where
        p: "err = Invalid_number_format p" "Suc i \<le> p" "p < length e" "e ! p = CHR ''.''"
           "list_all number_char (slice e (Suc i) p)"
           "count_list (slice e (Suc i) p) (CHR ''.'') + (if seen then 1 else 0) = 1"
        by auto
      with True nodot show ?thesis by (intro exI [of _ p]) (simp add: slice_Cons)
    qed
  qed
qed

definition tokenize :: "string \<Rightarrow> tok_error + token list" where
  "tokenize e = tokenize_loop e 0 []"


subsection \<open>The shape of a token\<close>

text \<open>
  Every token the tokenizer emits is one of three lexemes: a single operator or bracket
  character; a number, that is an optional \<^verbatim>\<open>-\<close> and blanks followed by a run of
  digits and points with at most one point (an unsigned number starts with a digit, or
  with a point and a digit); an identifier, a letter or underscore followed by letters,
  digits and underscores.
\<close>

definition number_run :: "string \<Rightarrow> bool" where
  "number_run r \<longleftrightarrow> r \<noteq> [] \<and> list_all number_char r \<and> count_list r (CHR ''.'') \<le> 1"

fun number_lexeme :: "token \<Rightarrow> bool" where
  "number_lexeme [] = False"
| "number_lexeme (c # r) =
     (if c = CHR ''-'' then number_run (dropWhile py_isspace r)
      else (py_isdigit c \<or> (c = CHR ''.'' \<and> r \<noteq> [] \<and> py_isdigit (hd r))) \<and> number_run (c # r))"

fun ident_lexeme :: "token \<Rightarrow> bool" where
  "ident_lexeme [] = False"
| "ident_lexeme (c # r) = ((py_isalpha c \<or> c = CHR ''_'') \<and> list_all ident_char r)"

definition lexeme :: "token \<Rightarrow> bool" where
  "lexeme t \<longleftrightarrow>
     t \<in> valid_operators \<or> t \<in> opening_brackets \<or> t \<in> closing_brackets \<or>
     number_lexeme t \<or> ident_lexeme t"

lemma lexeme_symbol:
  "[c] \<in> valid_operators \<or> [c] \<in> opening_brackets \<or> [c] \<in> closing_brackets \<Longrightarrow> lexeme [c]"
  by (auto simp: lexeme_def)

lemma lexeme_signed:
  assumes i: "i < length e" "e ! i = CHR ''-''"
    and j0: "skip_spaces e (Suc i) < length e" "number_char (e ! skip_spaces e (Suc i))"
    and run: "scan_number e (skip_spaces e (Suc i)) False = Inr k"
  shows "i < k \<and> k \<le> length e \<and> lexeme (slice e i k)"
proof -
  let ?j = "skip_spaces e (Suc i)"
  have ij: "Suc i \<le> ?j" by (rule skip_spaces_ge)
  have jk: "?j < k" using scan_number_gt [OF run j0] .
  have kl: "k \<le> length e" using scan_number_le [OF run] j0(1) by simp
  have sp: "list_all py_isspace (slice e (Suc i) ?j)" by (rule skip_spaces_chars)
  from scan_number_chars [OF run]
  have num: "list_all number_char (slice e ?j k)" "count_list (slice e ?j k) (CHR ''.'') \<le> 1"
    by simp_all
  have split: "slice e i k = e ! i # slice e (Suc i) ?j @ slice e ?j k"
    using i ij jk by (simp add: slice_Cons slice_append)
  have hd: "slice e ?j k = e ! ?j # slice e (Suc ?j) k"
    using j0 jk by (simp add: slice_Cons)
  have "\<not> py_isspace (e ! ?j)" using j0(2) py_isdigit_not_space by (auto simp: py_isspace_def)
  then have "dropWhile py_isspace (slice e (Suc i) ?j @ slice e ?j k) = slice e ?j k"
    using sp hd by (simp add: dropWhile_append list_all_iff)
  with num hd have "number_lexeme (slice e i k)"
    by (simp add: split i number_run_def)
  with ij jk kl show ?thesis by (simp add: lexeme_def)
qed

lemma lexeme_unsigned:
  assumes i: "i < length e"
    and c: "py_isdigit (e ! i) \<or> (e ! i = CHR ''.'' \<and> Suc i < length e \<and> py_isdigit (e ! Suc i))"
    and run: "scan_number e i False = Inr j"
  shows "i < j \<and> j \<le> length e \<and> lexeme (slice e i j)"
proof -
  have ij: "i < j" using scan_number_gt [OF run i] c by blast
  have jl: "j \<le> length e" using scan_number_le [OF run] i by simp
  from scan_number_chars [OF run]
  have num: "list_all number_char (slice e i j)" "count_list (slice e i j) (CHR ''.'') \<le> 1"
    by simp_all
  have split: "slice e i j = e ! i # slice e (Suc i) j" using i ij by (simp add: slice_Cons)
  have "e ! i \<noteq> CHR ''-''" using c by (auto simp: py_isdigit_def)
  moreover have "py_isdigit (e ! i) \<or>
    (e ! i = CHR ''.'' \<and> slice e (Suc i) j \<noteq> [] \<and> py_isdigit (hd (slice e (Suc i) j)))"
  proof (cases "py_isdigit (e ! i)")
    case False
    with c have dot: "e ! i = CHR ''.''" and nx: "Suc i < length e" "py_isdigit (e ! Suc i)"
      by simp_all
    from run dot have "scan_number e (Suc i) True = Inr j"
      by (subst (asm) scan_number.simps) (simp add: i)
    from scan_number_gt [OF this nx(1)] nx have "Suc i < j" by simp
    with nx dot show ?thesis by (simp add: slice_Cons)
  qed simp
  ultimately have "number_lexeme (slice e i j)"
    using num by (simp add: split number_run_def)
  with ij jl show ?thesis by (simp add: lexeme_def)
qed

lemma lexeme_ident:
  assumes i: "i < length e" and c: "py_isalpha (e ! i) \<or> e ! i = CHR ''_''"
  shows "i < scan_ident e i \<and> scan_ident e i \<le> length e \<and> lexeme (slice e i (scan_ident e i))"
proof -
  have ij: "i < scan_ident e i" using scan_ident_gt [OF i] c py_isalpha_isalnum by blast
  have jl: "scan_ident e i \<le> length e" using scan_ident_le [of i e] i by simp
  have "list_all ident_char (slice e i (scan_ident e i))" by (rule scan_ident_chars)
  with i ij c have "ident_lexeme (slice e i (scan_ident e i))" by (simp add: slice_Cons)
  with ij jl show ?thesis by (simp add: lexeme_def)
qed


subsection \<open>One successful step of the tokenizer\<close>

text \<open>
  A run that returns tokens either skips a blank at \<open>i\<close> or emits the slice
  \<open>e[i:j]\<close> for some \<open>j > i\<close>, and that slice is a lexeme. Every invariant of the
  tokenizer is an induction over these two steps (\<open>tokenize_loop_Inr_induct\<close>).
\<close>

lemma tokenize_loop_Inr_step:
  assumes run: "tokenize_loop e i ts0 = Inr ts" and i: "i < length e"
  shows "(py_isspace (e ! i) \<and> tokenize_loop e (Suc i) ts0 = Inr ts) \<or>
         (\<exists>j. i < j \<and> j \<le> length e \<and> lexeme (slice e i j) \<and>
              tokenize_loop e j (ts0 @ [slice e i j]) = Inr ts)"
proof -
  have eq: "tokenize_loop e i ts0 = Inr ts" by (rule run)
  note unf = eq [unfolded tokenize_loop.simps [of e i ts0]]
  have single: "slice e i (Suc i) = [e ! i]" using i by (rule slice_Suc_single)
  show ?thesis
  proof (cases "py_isspace (e ! i)")
    case True
    with unf i show ?thesis by simp
  next
    case nsp: False
    show ?thesis
    proof (cases "e ! i = CHR ''-'' \<and> sign_context e i ts0")
      case minus: True
      have op: "lexeme [e ! i]" using minus by (simp add: lexeme_def valid_operators_def)
      show ?thesis
      proof (cases "Suc i < length e \<and> e ! Suc i = CHR ''-''")
        case True
        with unf i nsp minus have "tokenize_loop e (Suc i) (ts0 @ [[e ! i]]) = Inr ts"
          by (simp add: Let_def)
        with op single i show ?thesis by (intro disjI2 exI [of _ "Suc i"]) simp
      next
        case nodbl: False
        let ?j = "skip_spaces e (Suc i)"
        show ?thesis
        proof (cases "?j < length e \<and> number_char (e ! ?j)")
          case True
          with unf i nsp minus nodbl obtain k where k: "scan_number e ?j False = Inr k"
            and rest: "tokenize_loop e k (ts0 @ [slice e i k]) = Inr ts"
            by (auto simp: Let_def split: sum.splits)
          from lexeme_signed [OF i minus [THEN conjunct1] True [THEN conjunct1]
                True [THEN conjunct2] k] rest
          show ?thesis by blast
        next
          case False
          with unf i nsp minus nodbl have "tokenize_loop e (Suc i) (ts0 @ [[e ! i]]) = Inr ts"
            by (auto simp: Let_def)
          with op single i show ?thesis by (intro disjI2 exI [of _ "Suc i"]) simp
        qed
      qed
    next
      case nominus: False
      show ?thesis
      proof (cases "py_isdigit (e ! i) \<or>
                    (e ! i = CHR ''.'' \<and> Suc i < length e \<and> py_isdigit (e ! Suc i))")
        case True
        with unf i nsp nominus obtain j where j: "scan_number e i False = Inr j"
          and rest: "tokenize_loop e j (ts0 @ [slice e i j]) = Inr ts"
          by (auto simp: Let_def split: sum.splits)
        from lexeme_unsigned [OF i True j] rest show ?thesis by blast
      next
        case nonum: False
        show ?thesis
        proof (cases "py_isalpha (e ! i) \<or> e ! i = CHR ''_''")
          case True
          with unf i nsp nominus nonum
          have "tokenize_loop e (scan_ident e i) (ts0 @ [slice e i (scan_ident e i)]) = Inr ts"
            by (simp add: Let_def)
          with lexeme_ident [OF i True] show ?thesis by blast
        next
          case noid: False
          show ?thesis
          proof (cases "[e ! i] \<in> valid_operators \<or> [e ! i] \<in> opening_brackets \<or>
                        [e ! i] \<in> closing_brackets")
            case True
            with unf i nsp nominus nonum noid
            have "tokenize_loop e (Suc i) (ts0 @ [[e ! i]]) = Inr ts" by (simp add: Let_def)
            with lexeme_symbol [OF True] single i show ?thesis
              by (intro disjI2 exI [of _ "Suc i"]) simp
          next
            case False
            with unf i nsp nominus nonum noid show ?thesis by (simp add: Let_def)
          qed
        qed
      qed
    qed
  qed
qed

lemma tokenize_loop_end: "\<not> i < length e \<Longrightarrow> tokenize_loop e i ts0 = Inr ts0"
  by (subst tokenize_loop.simps) simp

lemma tokenize_loop_Inr_induct [consumes 1, case_names stop skip emit]:
  assumes run: "tokenize_loop e i ts0 = Inr ts"
    and stop: "\<And>i. \<not> i < length e \<Longrightarrow> P i ts"
    and skip: "\<And>i ts0. i < length e \<Longrightarrow> py_isspace (e ! i) \<Longrightarrow>
                 tokenize_loop e (Suc i) ts0 = Inr ts \<Longrightarrow> P (Suc i) ts0 \<Longrightarrow> P i ts0"
    and emit: "\<And>i j ts0. i < j \<Longrightarrow> j \<le> length e \<Longrightarrow> lexeme (slice e i j) \<Longrightarrow>
                 tokenize_loop e j (ts0 @ [slice e i j]) = Inr ts \<Longrightarrow>
                 P j (ts0 @ [slice e i j]) \<Longrightarrow> P i ts0"
  shows "P i ts0"
  using run
proof (induction "length e - i" arbitrary: i ts0 rule: less_induct)
  case less
  show ?case
  proof (cases "i < length e")
    case False
    with less.prems tokenize_loop_end [OF False, of ts0] have "ts0 = ts" by simp
    with stop [OF False] show ?thesis by simp
  next
    case True
    from tokenize_loop_Inr_step [OF less.prems True] show ?thesis
    proof
      assume a: "py_isspace (e ! i) \<and> tokenize_loop e (Suc i) ts0 = Inr ts"
      have "length e - Suc i < length e - i" using True by simp
      from less.hyps [OF this a [THEN conjunct2]] True a show ?thesis by (blast intro: skip)
    next
      assume "\<exists>j. i < j \<and> j \<le> length e \<and> lexeme (slice e i j) \<and>
                  tokenize_loop e j (ts0 @ [slice e i j]) = Inr ts"
      then obtain j where j: "i < j" "j \<le> length e" "lexeme (slice e i j)"
        and r: "tokenize_loop e j (ts0 @ [slice e i j]) = Inr ts" by blast
      have "length e - j < length e - i" using True j(1) by simp
      from less.hyps [OF this r] j r show ?thesis by (blast intro: emit)
    qed
  qed
qed


subsection \<open>Invariants of a successful run\<close>

lemma tokenize_loop_lexemes:
  "tokenize_loop e i ts0 = Inr ts \<Longrightarrow> list_all lexeme ts0 \<Longrightarrow> list_all lexeme ts"
  by (induction rule: tokenize_loop_Inr_induct) auto

lemma tokenize_loop_nonblank:
  "tokenize_loop e i ts0 = Inr ts \<Longrightarrow>
   filter (\<lambda>c. \<not> py_isspace c) (concat ts) =
   filter (\<lambda>c. \<not> py_isspace c) (concat ts0) @ filter (\<lambda>c. \<not> py_isspace c) (drop i e)"
proof (induction rule: tokenize_loop_Inr_induct)
  case (stop i)
  then show ?case by simp
next
  case (skip i ts0)
  then show ?case by (simp add: drop_nth_Cons)
next
  case (emit i j ts0)
  have "drop i e = slice e i j @ drop j e"
    using emit.hyps(1) by (simp add: slice_append_drop)
  with emit.IH show ?case by simp
qed

lemma tokenize_nonblank_nonempty:
  assumes "tokenize e = Inr []" shows "list_all py_isspace e"
proof -
  have "filter (\<lambda>c. \<not> py_isspace c) e = []"
    using tokenize_loop_nonblank [of e 0 "[]" "[]"] assms by (simp add: tokenize_def)
  then show ?thesis by (simp add: filter_empty_conv list_all_iff)
qed

subsection \<open>Runs that fail\<close>

text \<open>
  A failing run either fails at \<open>i\<close> on a character that starts no token, or fails
  inside a number scan that starts at or after \<open>i\<close>, or fails later.
\<close>

lemma tokenize_loop_Inl_step:
  assumes run: "tokenize_loop e i ts = Inl err" and i: "i < length e"
  shows "(err = Invalid_character (e ! i) i \<and> \<not> py_isspace (e ! i) \<and> \<not> py_isdigit (e ! i) \<and>
          \<not> py_isalpha (e ! i) \<and> e ! i \<noteq> CHR ''_'' \<and>
          \<not> ([e ! i] \<in> valid_operators \<or> [e ! i] \<in> opening_brackets \<or> [e ! i] \<in> closing_brackets)) \<or>
         (\<exists>j. i \<le> j \<and> scan_number e j False = Inl err) \<or>
         (\<exists>j ts'. i < j \<and> tokenize_loop e j ts' = Inl err)"
proof -
  note unf = run [unfolded tokenize_loop.simps [of e i ts]]
  have ge: "i < skip_spaces e (Suc i)" using skip_spaces_ge [of "Suc i" e] by simp
  show ?thesis
  proof (cases "py_isspace (e ! i)")
    case True
    with unf i show ?thesis by auto
  next
    case nsp: False
    show ?thesis
    proof (cases "e ! i = CHR ''-'' \<and> sign_context e i ts")
      case True
      with unf i nsp ge show ?thesis
        by (auto simp: Let_def split: if_splits sum.splits dest: scan_number_ge)
    next
      case nominus: False
      show ?thesis
      proof (cases "py_isdigit (e ! i) \<or> (e ! i = CHR ''.'' \<and> Suc i < length e \<and> py_isdigit (e ! Suc i))")
        case True
        with unf i nsp nominus show ?thesis
          by (auto simp: Let_def split: sum.splits intro: scan_number_gt)
      next
        case nonum: False
        have "e ! i = CHR ''-'' \<Longrightarrow> [e ! i] \<in> valid_operators"
          by (simp add: valid_operators_def)
        with unf i nsp nominus nonum scan_ident_gt [OF i] py_isalpha_isalnum [of "e ! i"]
        show ?thesis by (auto simp: Let_def split: if_splits)
      qed
    qed
  qed
qed

definition bracket_char :: "char \<Rightarrow> bool" where
  "bracket_char c \<longleftrightarrow> is_bracket [c]"

lemma bracket_char_cases:
  "bracket_char c \<Longrightarrow>
   c = CHR ''('' \<or> c = CHR ''['' \<or> c = CHR ''{'' \<or> c = CHR '')'' \<or> c = CHR '']'' \<or> c = CHR ''}''"
  by (auto simp: bracket_char_def is_bracket_def opening_brackets_def closing_brackets_def)

lemma bracket_char_not_lexical:
  assumes "bracket_char c"
  shows "\<not> py_isspace c" "\<not> number_char c" "\<not> ident_char c" "c \<noteq> CHR ''-''"
  using bracket_char_cases [OF assms] by (auto simp: py_char_defs)

lemma lexeme_nonempty: "lexeme t \<Longrightarrow> t \<noteq> []"
  by (auto simp: lexeme_def valid_operators_def opening_brackets_def closing_brackets_def)

lemma number_run_filter:
  "list_all number_char r \<Longrightarrow> filter bracket_char r = []"
  using bracket_char_not_lexical(2) by (induction r) auto

lemma is_bracket_iff_char: "is_bracket t \<longleftrightarrow> (\<exists>c. t = [c] \<and> bracket_char c)"
  by (auto simp: is_bracket_def bracket_char_def opening_brackets_def closing_brackets_def)

lemma lexeme_no_bracket_char:
  assumes "lexeme t" and "\<not> is_bracket t"
  shows "list_all (\<lambda>c. \<not> bracket_char c) t"
proof -
  consider (op) "t \<in> valid_operators" | (num) "number_lexeme t" | (ident) "ident_lexeme t"
    using assms by (auto simp: lexeme_def is_bracket_def)
  then show ?thesis
  proof cases
    case op
    then show ?thesis
      by (auto simp: valid_operators_def bracket_char_def is_bracket_def opening_brackets_def
          closing_brackets_def)
  next
    case num
    then obtain c r where t: "t = c # r" by (cases t) auto
    show ?thesis
    proof (cases "c = CHR ''-''")
      case True
      with num t have "list_all number_char (dropWhile py_isspace r)"
        by (simp add: number_run_def)
      moreover have "list_all py_isspace (takeWhile py_isspace r)"
        by (simp add: list_all_iff) (meson set_takeWhileD)
      moreover have "set r = set (takeWhile py_isspace r) \<union> set (dropWhile py_isspace r)"
        by (metis set_append takeWhile_dropWhile_id)
      ultimately have "list_all (\<lambda>c. \<not> bracket_char c) r"
        by (auto simp: list_all_iff dest: bracket_char_not_lexical(1,2))
      with True t show ?thesis by (auto dest: bracket_char_not_lexical(4))
    next
      case False
      with num t have "list_all number_char t" by (simp add: number_run_def)
      then show ?thesis by (auto simp: list_all_iff dest: bracket_char_not_lexical(2))
    qed
  next
    case ident
    then obtain c r where t: "t = c # r" and c: "py_isalpha c \<or> c = CHR ''_''"
      and r: "list_all ident_char r" by (cases t) auto
    with py_isalpha_isalnum have "list_all ident_char t" by auto
    then show ?thesis by (auto simp: list_all_iff dest: bracket_char_not_lexical(3))
  qed
qed

lemma lexeme_bracket_filter:
  assumes "lexeme t"
  shows "filter bracket_char t = (if is_bracket t then t else [])"
proof (cases "is_bracket t")
  case True
  then show ?thesis by (auto simp: is_bracket_iff_char)
next
  case False
  with lexeme_no_bracket_char [OF assms False] show ?thesis
    by (simp add: list_all_iff)
qed

lemma lexeme_count_point: "lexeme t \<Longrightarrow> count_list t (CHR ''.'') \<le> 1"
proof -
  have ident: "count_list t (CHR ''.'') = 0" if "list_all ident_char t" for t
    using that by (induction t) (auto simp: py_char_defs)
  assume "lexeme t"
  then consider (sym) "t \<in> valid_operators \<or> t \<in> opening_brackets \<or> t \<in> closing_brackets"
    | (num) "number_lexeme t" | (id) "ident_lexeme t"
    by (auto simp: lexeme_def)
  then show ?thesis
  proof cases
    case sym
    then show ?thesis by (auto simp: valid_operators_def opening_brackets_def closing_brackets_def)
  next
    case num
    then obtain c r where t: "t = c # r" by (cases t) auto
    show ?thesis
    proof (cases "c = CHR ''-''")
      case True
      have sp: "count_list (takeWhile py_isspace r) (CHR ''.'') = 0"
        by (induction r) (auto simp: py_isspace_def)
      from num t True have "count_list (dropWhile py_isspace r) (CHR ''.'') \<le> 1"
        by (simp add: number_run_def)
      have "count_list t (CHR ''.'') = count_list r (CHR ''.'')" using True t by simp
      also have "\<dots> = count_list (takeWhile py_isspace r @ dropWhile py_isspace r) (CHR ''.'')"
        by simp
      finally show ?thesis using sp \<open>count_list (dropWhile py_isspace r) (CHR ''.'') \<le> 1\<close>
        by (simp del: takeWhile_dropWhile_id)
    next
      case False
      with num t show ?thesis by (simp add: number_run_def)
    qed
  next
    case id
    then obtain c r where t: "t = c # r" and c: "py_isalpha c \<or> c = CHR ''_''"
      and r: "list_all ident_char r" by (cases t) auto
    with py_isalpha_isalnum have "list_all ident_char t" by auto
    then show ?thesis using ident by simp
  qed
qed


subsection \<open>Bracket tokens are the bracket characters of the input\<close>

lemma concat_map_if_filter:
  "concat (map (\<lambda>t. if P t then t else []) ts) = concat (filter P ts)"
  by (induction ts) auto

lemma map_single_concat_brackets:
  "list_all is_bracket ts \<Longrightarrow> map (\<lambda>ch. [ch]) (concat ts) = ts"
  by (induction ts) (auto simp: is_bracket_iff_char)

lemma tokenize_bracket_tokens:
  assumes "tokenize e = Inr ts"
  shows "filter is_bracket ts = map (\<lambda>ch. [ch]) (filter bracket_char e)"
proof -
  let ?nb = "\<lambda>c. \<not> py_isspace c"
  have lex: "list_all lexeme ts"
    using tokenize_loop_lexemes [of e 0 "[]" ts] assms by (simp add: tokenize_def)
  have rt: "filter ?nb (concat ts) = filter ?nb e"
    using tokenize_loop_nonblank [of e 0 "[]" ts] assms by (simp add: tokenize_def)
  have weak: "bracket_char c \<Longrightarrow> ?nb c" for c by (rule bracket_char_not_lexical(1))
  have "filter bracket_char e = filter bracket_char (filter ?nb e)"
    by (rule filter_filter_weaker [OF weak, symmetric])
  also have "\<dots> = filter bracket_char (concat ts)"
    by (simp only: rt [symmetric] filter_filter_weaker [OF weak])
  also have "\<dots> = concat (map (\<lambda>t. if is_bracket t then t else []) ts)"
    using lex by (simp add: filter_concat_map list_all_iff lexeme_bracket_filter cong: map_cong)
  also have "\<dots> = concat (filter is_bracket ts)"
    by (rule concat_map_if_filter)
  finally have "map (\<lambda>ch. [ch]) (filter bracket_char e) =
                map (\<lambda>ch. [ch]) (concat (filter is_bracket ts))" by simp
  also have "\<dots> = filter is_bracket ts"
    by (rule map_single_concat_brackets) (simp add: list_all_iff)
  finally show ?thesis by simp
qed

lemma lexeme_hd_nonspace: "lexeme t \<Longrightarrow> t \<noteq> [] \<and> \<not> py_isspace (hd t)"
proof -
  assume l: "lexeme t"
  then have ne: "t \<noteq> []" by (rule lexeme_nonempty)
  then obtain c r where t: "t = c # r" by (cases t) auto
  have "\<not> py_isspace c"
    using l py_isdigit_not_space py_isalnum_not_space py_isalpha_isalnum [of c]
    by (auto simp: t lexeme_def valid_operators_def opening_brackets_def closing_brackets_def
        py_isspace_def split: if_splits)
  with t show ?thesis by simp
qed

lemma lexemes_length_nonblank:
  "list_all lexeme ts \<Longrightarrow> length ts \<le> length (filter (\<lambda>c. \<not> py_isspace c) (concat ts))"
proof (induction ts)
  case Nil
  then show ?case by simp
next
  case (Cons t ts)
  from lexeme_hd_nonspace [of t] Cons.prems obtain c r where "t = c # r" "\<not> py_isspace c"
    by (cases t) auto
  with Cons show ?case by simp
qed

subsection \<open>Properties of the tokenizer\<close>

text \<open>
  C4: every token of a successful \<^verbatim>\<open>tokenize\<close> is a lexeme: a single operator or
  bracket character, a number (an optional minus and blanks, then digits and at most one
  point), or an identifier.
\<close>

theorem tokenize_lexemes:
  assumes "tokenize e = Inr ts"
  shows "list_all lexeme ts"
  using tokenize_loop_lexemes [of e 0 "[]" ts] assms by (simp add: tokenize_def)

theorem tokenize_lexemes_witness:
  "tokenize ''-2.5*x_1 + (y)'' = Inr [''-2.5'', ''*'', ''x_1'', ''+'', ''('', ''y'', '')''] \<and>
   list_all lexeme [''-2.5'', ''*'', ''x_1'', ''+'', ''('', ''y'', '')'']"
proof -
  have t: "tokenize ''-2.5*x_1 + (y)'' = Inr [''-2.5'', ''*'', ''x_1'', ''+'', ''('', ''y'', '')'']"
    by code_simp
  from t tokenize_lexemes [OF t] show ?thesis by simp
qed

text \<open>
  C3: the tokens of a successful \<^verbatim>\<open>tokenize\<close>, concatenated, give back the input
  once blanks are removed: no character other than white space is dropped, added or
  reordered.
\<close>

theorem tokenize_roundtrip:
  assumes "tokenize e = Inr ts"
  shows "filter (\<lambda>c. \<not> py_isspace c) (concat ts) = filter (\<lambda>c. \<not> py_isspace c) e"
  using tokenize_loop_nonblank [of e 0 "[]" ts] assms by (simp add: tokenize_def)

theorem tokenize_roundtrip_witness:
  "tokenize ''2 * - 3'' = Inr [''2'', ''*'', ''- 3''] \<and>
   filter (\<lambda>c. \<not> py_isspace c) (concat [''2'', ''*'', ''- 3'']) =
   filter (\<lambda>c. \<not> py_isspace c) ''2 * - 3''"
proof -
  have t: "tokenize ''2 * - 3'' = Inr [''2'', ''*'', ''- 3'']" by code_simp
  from t tokenize_roundtrip [OF t] show ?thesis by simp
qed

text \<open>
  C8: no token of a successful \<^verbatim>\<open>tokenize\<close> holds two decimal points (the decimal
  invariant of the specification).
\<close>

theorem tokenize_point_bound:
  assumes "tokenize e = Inr ts" and "t \<in> set ts"
  shows "count_list t (CHR ''.'') \<le> 1"
proof -
  have "list_all lexeme ts"
    using tokenize_loop_lexemes [of e 0 "[]" ts] assms(1) by (simp add: tokenize_def)
  with assms(2) have "lexeme t" by (simp add: list_all_iff)
  then show ?thesis by (rule lexeme_count_point)
qed

theorem tokenize_point_bound_witness:
  "tokenize ''.5 + 2.'' = Inr [''.5'', ''+'', ''2.''] \<and> ''2.'' \<in> set [''.5'', ''+'', ''2.''] \<and>
   count_list ''2.'' (CHR ''.'') \<le> 1"
proof -
  have t: "tokenize ''.5 + 2.'' = Inr [''.5'', ''+'', ''2.'']" by code_simp
  from t tokenize_point_bound [OF t, of "''2.''"] show ?thesis by simp
qed

text \<open>
  C22: no token of a successful \<^verbatim>\<open>tokenize\<close> is empty, so the \<^verbatim>\<open>token[0]\<close> of
  \<^verbatim>\<open>is_variable\<close> never raises \<^verbatim>\<open>IndexError\<close> inside \<^verbatim>\<open>check_syntax\<close>.
\<close>

theorem tokenize_tokens_nonempty:
  assumes "tokenize e = Inr ts"
  shows "[] \<notin> set ts"
proof -
  have "list_all lexeme ts"
    using tokenize_loop_lexemes [of e 0 "[]" ts] assms by (simp add: tokenize_def)
  then show ?thesis by (auto simp: list_all_iff dest: lexeme_nonempty)
qed

theorem tokenize_tokens_nonempty_witness:
  "tokenize ''(a)'' = Inr [''('', ''a'', '')''] \<and> [] \<notin> set [''('', ''a'', '')'']"
proof -
  have t: "tokenize ''(a)'' = Inr [''('', ''a'', '')'']" by code_simp
  from t tokenize_tokens_nonempty [OF t] show ?thesis by simp
qed

text \<open>
  C13: \<^verbatim>\<open>scan_number\<close> (the digit loops of lines 69--75 and 84--91) computes the
  maximal run of digits and points after \<open>i\<close>: it succeeds exactly when that run holds
  at most one point, counting one already seen, and then returns the index just after it.
\<close>

theorem scan_number_Inr_iff:
  "scan_number e i seen = Inr k \<longleftrightarrow>
   k = i + length (takeWhile number_char (drop i e)) \<and>
   count_list (takeWhile number_char (drop i e)) (CHR ''.'') + (if seen then 1 else 0) \<le> 1"
proof (induction e i seen rule: scan_number.induct)
  case (1 e i seen)
  show ?case
  proof (cases "i < length e \<and> number_char (e ! i)")
    case False
    then show ?thesis
      by (subst scan_number.simps) (auto simp: takeWhile_drop_Nil)
  next
    case True
    then have tw: "takeWhile number_char (drop i e) = e ! i # takeWhile number_char (drop (Suc i) e)"
      by (simp add: takeWhile_drop_Cons)
    show ?thesis
    proof (cases "e ! i = CHR ''.''")
      case dot: True
      show ?thesis
      proof (cases seen)
        case True
        with dot \<open>i < length e \<and> number_char (e ! i)\<close> tw show ?thesis
          by (subst scan_number.simps) simp
      next
        case False
        with "1.IH"(1) [OF True dot False] True dot tw show ?thesis
          by (subst scan_number.simps) auto
      qed
    next
      case nodot: False
      with "1.IH"(2) [OF True nodot] True tw show ?thesis
        by (subst scan_number.simps) auto
    qed
  qed
qed

text \<open>
  C12: a lexical error names a position of the input and what is there: an invalid
  character is the character at that offset and starts no token (it is not blank, a
  digit, a letter, an underscore or a symbol); an invalid number format is a point at that
  offset that is the second point of a run of digits and points.
\<close>

theorem tokenize_error_position:
  assumes "tokenize e = Inl err"
  shows "case err of
           Invalid_character c p \<Rightarrow>
             p < length e \<and> e ! p = c \<and> \<not> py_isspace c \<and> \<not> py_isdigit c \<and> \<not> py_isalpha c \<and>
             c \<noteq> CHR ''_'' \<and> \<not> ([c] \<in> valid_operators \<or> [c] \<in> opening_brackets \<or> [c] \<in> closing_brackets)
         | Invalid_number_format p \<Rightarrow>
             p < length e \<and> e ! p = CHR ''.'' \<and>
             (\<exists>s<p. list_all number_char (slice e s p) \<and> count_list (slice e s p) (CHR ''.'') = 1)"
proof -
  have "tokenize_loop e i ts = Inl err \<Longrightarrow> ?thesis" for i ts
  proof (induction "length e - i" arbitrary: i ts rule: less_induct)
    case less
    have i: "i < length e"
      using less.prems by (cases "i < length e") (simp_all add: tokenize_loop_end)
    from tokenize_loop_Inl_step [OF less.prems i] show ?case
    proof (elim disjE exE conjE)
      fix j assume "scan_number e j False = Inl err"
      from scan_number_Inl [OF this] obtain p where
        p: "err = Invalid_number_format p" "j \<le> p" "p < length e" "e ! p = CHR ''.''"
           "list_all number_char (slice e j p)" "count_list (slice e j p) (CHR ''.'') = 1"
        by auto
      have "j < p" using p(2,6) by (cases "j = p") auto
      with p show ?case by (auto intro!: exI [of _ j])
    next
      fix j ts' assume "i < j" and r: "tokenize_loop e j ts' = Inl err"
      then have "length e - j < length e - i" using i by simp
      from less.hyps [OF this r] show ?case .
    qed (use i in \<open>auto split: tok_error.splits\<close>)
  qed
  with assms show ?thesis by (simp add: tokenize_def)
qed

theorem tokenize_error_position_witness:
  "tokenize ''x . y'' = Inl (Invalid_character CHR ''.'' 2) \<and> ''x . y'' ! 2 = CHR ''.'' \<and>
   tokenize ''1.2.3'' = Inl (Invalid_number_format 3) \<and> ''1.2.3'' ! 3 = CHR ''.'' \<and>
   (case Invalid_number_format 3 of
      Invalid_character c p \<Rightarrow> True
    | Invalid_number_format p \<Rightarrow>
        p < length ''1.2.3'' \<and> ''1.2.3'' ! p = CHR ''.'' \<and>
        (\<exists>s<p. list_all number_char (slice ''1.2.3'' s p) \<and>
                count_list (slice ''1.2.3'' s p) (CHR ''.'') = 1))"
proof -
  have t1: "tokenize ''x . y'' = Inl (Invalid_character CHR ''.'' 2)" by code_simp
  have t2: "tokenize ''1.2.3'' = Inl (Invalid_number_format 3)" by code_simp
  from tokenize_error_position [OF t2] t1 t2 show ?thesis by simp
qed

text \<open>
  C24: a successful \<^verbatim>\<open>tokenize\<close> emits at most one token per non-blank character of
  the input: every token starts with a non-blank character of its own.
\<close>

theorem tokenize_length_bound:
  assumes "tokenize e = Inr ts"
  shows "length ts \<le> length (filter (\<lambda>c. \<not> py_isspace c) e)"
proof -
  have "list_all lexeme ts"
    using tokenize_loop_lexemes [of e 0 "[]" ts] assms by (simp add: tokenize_def)
  moreover have "filter (\<lambda>c. \<not> py_isspace c) (concat ts) = filter (\<lambda>c. \<not> py_isspace c) e"
    using tokenize_loop_nonblank [of e 0 "[]" ts] assms by (simp add: tokenize_def)
  ultimately show ?thesis using lexemes_length_nonblank by metis
qed

theorem tokenize_length_bound_witness:
  "tokenize ''(a+b) * 2'' = Inr [''('', ''a'', ''+'', ''b'', '')'', ''*'', ''2''] \<and>
   length [''('', ''a'', ''+'', ''b'', '')'', ''*'', ''2''] \<le>
   length (filter (\<lambda>c. \<not> py_isspace c) ''(a+b) * 2'')"
proof -
  have t: "tokenize ''(a+b) * 2'' = Inr [''('', ''a'', ''+'', ''b'', '')'', ''*'', ''2'']" by code_simp
  from t tokenize_length_bound [OF t] show ?thesis by simp
qed

end
