(* ===== verification/Validator.thy ===== *)
theory Validator
  imports Tokenizer
begin

section \<open>The syntax validator\<close>

text \<open>
  \<^verbatim>\<open>MathSyntaxChecker.check_syntax\<close> (\<^verbatim>\<open>src/app.py\<close> lines 109--227). The checker
  object keeps one piece of mutable state, \<^verbatim>\<open>self.stack\<close>: the record
  \<open>checker\<close>; the vocabularies of \<^verbatim>\<open>__init__\<close> are never written and are the
  constants of \<open>Classifier\<close>. \<^verbatim>\<open>check_syntax\<close> returns \<^verbatim>\<open>(valid, message)\<close>
  and leaves the stack as the walk left it: the model returns both. Every early
  \<^verbatim>\<open>return False, ...\<close> is a constructor of \<open>syntax_error\<close>; its text is
  \<open>message\<close>.
\<close>

record checker =
  stack :: "token list"

definition init_checker :: checker where
  "init_checker = \<lparr>stack = []\<rparr>"

datatype syntax_error =
  Empty_expression
| Tokenize_error tok_error
| No_valid_tokens
| Start_operator token
| Only_minus
| Invalid_after_unary_minus token
| Unrecognized_token token position
| Loop_start_operator token
| Function_without_bracket token
| Ends_with_operator
| Operand_expected_after_operator position
| Expected_after_operand token_type position
| Expected_after_open position
| Expected_after_close position
| Unmatched_closing token position
| Mismatched_pair token token position
| Unmatched_opening "token list"

text \<open>Lines 186--208: the adjacency rules of the current token.\<close>

definition adjacency_error ::
  "token list \<Rightarrow> nat \<Rightarrow> token_type option \<Rightarrow> token_type \<Rightarrow> syntax_error option" where
  "adjacency_error tokens i prev tt =
     (if tt = Operator then
        (if i = length tokens - 1 then Some Ends_with_operator
         else if Suc i < length tokens then
           (let next_token = tokens ! Suc i in
            if \<not> (is_number next_token \<or> is_variable next_token \<or> is_function next_token \<or>
                  next_token \<in> opening_brackets \<or>
                  (next_token = ''-'' \<and> tokens ! i \<in> valid_operators))
            then Some (Operand_expected_after_operator (Suc i)) else None)
         else None)
      else (case prev of
              Some p \<Rightarrow>
                if p \<in> {Number, Variable} \<and>
                   tt \<notin> {Operator, Close_bracket, Open_bracket, Function, Variable}
                then Some (Expected_after_operand p i)
                else if p = Open_bracket \<and>
                   tt \<notin> {Number, Variable, Function, Open_bracket, Operator}
                then Some (Expected_after_open i)
                else if p = Close_bracket \<and>
                   tt \<notin> {Operator, Close_bracket, Open_bracket, Function, Variable}
                then Some (Expected_after_close i)
                else None
            | None \<Rightarrow> None))"

text \<open>
  Lines 211--218: an opening bracket is pushed (\<^verbatim>\<open>append\<close>, the top is the end of
  the list); a closing one pops, and the popped opener is compared with
  \<^verbatim>\<open>self.bracket_pairs[token]\<close>.
\<close>

definition bracket_step ::
  "token list \<Rightarrow> token \<Rightarrow> token_type \<Rightarrow> nat \<Rightarrow> syntax_error option \<times> token list" where
  "bracket_step st token tt i =
     (if tt = Open_bracket then (None, st @ [token])
      else if tt = Close_bracket then
        (if st = [] then (Some (Unmatched_closing token i), st)
         else
           (let last_open = last st; st' = butlast st in
            if bracket_pairs token \<noteq> Some last_open
            then (Some (Mismatched_pair last_open token i), st')
            else (None, st')))
      else (None, st))"

text \<open>
  Lines 149--221: the walk over the tokens with \<^verbatim>\<open>prev_token_type\<close> (\<open>None\<close> at
  the start) and the bracket stack; it returns the first error, if any, and the stack.
\<close>

function validate_loop ::
  "token list \<Rightarrow> nat \<Rightarrow> token_type option \<Rightarrow> token list \<Rightarrow> syntax_error option \<times> token list"
  where
  "validate_loop tokens i prev st =
     (if i < length tokens then
        (let token = tokens ! i in
         case token_type_of token of
           None \<Rightarrow> (Some (Unrecognized_token token i), st)
         | Some tt \<Rightarrow>
             if i = 0 \<and> tt = Operator \<and> token \<noteq> ''-'' then (Some (Loop_start_operator token), st)
             else if prev = Some Function \<and> tt \<noteq> Open_bracket then
               (Some (Function_without_bracket (tokens ! (i - 1))), st)
             else
               (case adjacency_error tokens i prev tt of
                  Some err \<Rightarrow> (Some err, st)
                | None \<Rightarrow>
                    (case bracket_step st token tt i of
                       (Some err, st') \<Rightarrow> (Some err, st')
                     | (None, st') \<Rightarrow> validate_loop tokens (Suc i) (Some tt) st')))
      else (None, st))"
  by pat_completeness auto
termination
  by (relation "measure (\<lambda>(tokens, i, prev, st). length tokens - i)") auto

declare validate_loop.simps [simp del]

text \<open>
  Lines 110--147: the checks before the walk, and lines 148 and 223--227 around it. The
  walk starts from an empty stack (line 148, \<^verbatim>\<open>self.stack = []\<close>); the stack is
  written back into the checker on every path that reaches the walk.
\<close>

definition check_syntax_core :: "checker \<Rightarrow> string \<Rightarrow> syntax_error option \<times> checker" where
  "check_syntax_core c e =
     (if py_strip e = [] then (Some Empty_expression, c)
      else
        (case tokenize e of
           Inl err \<Rightarrow> (Some (Tokenize_error err), c)
         | Inr tokens \<Rightarrow>
             if tokens = [] then (Some No_valid_tokens, c)
             else if hd tokens \<in> valid_operators \<and> hd tokens \<noteq> ''-'' then
               (Some (Start_operator (hd tokens)), c)
             else if hd tokens = ''-'' \<and> length tokens < 2 then (Some Only_minus, c)
             else if hd tokens = ''-'' \<and>
                     (case unary_next_type (tokens ! 1) of
                        None \<Rightarrow> True
                      | Some tt \<Rightarrow> tt \<notin> set allowed_after_unary_minus)
             then (Some (Invalid_after_unary_minus (tokens ! 1)), c)
             else
               (case validate_loop tokens 0 None [] of
                  (Some err, st) \<Rightarrow> (Some err, c\<lparr>stack := st\<rparr>)
                | (None, st) \<Rightarrow>
                    if st \<noteq> [] then (Some (Unmatched_opening st), c\<lparr>stack := st\<rparr>)
                    else (None, c\<lparr>stack := st\<rparr>))))"

subsection \<open>Messages\<close>

definition quoted :: "string \<Rightarrow> string" where
  "quoted t = CHR 0x27 # t @ [CHR 0x27]"

fun type_name :: "token_type \<Rightarrow> string" where
  "type_name Number = ''number''"
| "type_name Function = ''function''"
| "type_name Variable = ''variable''"
| "type_name Operator = ''operator''"
| "type_name Open_bracket = ''open_bracket''"
| "type_name Close_bracket = ''close_bracket''"

fun tok_message :: "tok_error \<Rightarrow> string" where
  "tok_message (Invalid_number_format i) =
     ''Error: Invalid number format at position '' @ show_nat i"
| "tok_message (Invalid_character c i) =
     ''Error: Invalid character '' @ quoted [c] @ '' at position '' @ show_nat i"

fun message :: "syntax_error \<Rightarrow> string" where
  "message Empty_expression = ''Error: Empty expression''"
| "message (Tokenize_error err) = tok_message err"
| "message No_valid_tokens = ''Error: No valid tokens found in expression''"
| "message (Start_operator t) = ''Error: Expression cannot start with the operator '' @ quoted t"
| "message Only_minus = ''Error: Expression cannot consist of only a minus sign''"
| "message (Invalid_after_unary_minus t) =
     ''Error: Invalid token '' @ quoted t @ '' after unary minus''"
| "message (Unrecognized_token t i) =
     ''Error: Unrecognized token '' @ quoted t @ '' at position '' @ show_nat i"
| "message (Loop_start_operator t) = ''Error: Expression cannot start with operator '' @ quoted t"
| "message (Function_without_bracket t) =
     ''Error: Function '' @ quoted t @ '' must be followed by an opening bracket''"
| "message Ends_with_operator = ''Error: Expression cannot end with an operator''"
| "message (Operand_expected_after_operator k) =
     ''Error: Expected number, variable, function, or opening bracket after operator at position ''
     @ show_nat k"
| "message (Expected_after_operand p i) =
     ''Error: Expected operator, closing bracket, or implicit multiplication after '' @
     type_name p @ '' at position '' @ show_nat i"
| "message (Expected_after_open i) =
     ''Error: Expected number, variable, function, or opening bracket after opening bracket at position ''
     @ show_nat i"
| "message (Expected_after_close i) =
     ''Error: Expected operator, closing bracket, or implicit multiplication after closing bracket at position ''
     @ show_nat i"
| "message (Unmatched_closing t i) =
     ''Error: Unmatched closing bracket '' @ quoted t @ '' at position '' @ show_nat i"
| "message (Mismatched_pair a t i) =
     ''Error: Mismatched bracket pair '' @ quoted a @ '' and '' @ quoted t @ '' at position '' @
     show_nat i"
| "message (Unmatched_opening st) = ''Error: Unmatched opening brackets: '' @ py_join '', '' st"

definition check_syntax :: "checker \<Rightarrow> string \<Rightarrow> (bool \<times> string) \<times> checker" where
  "check_syntax c e =
     (case check_syntax_core c e of
        (None, c') \<Rightarrow> ((True, ''Expression syntax is valid''), c')
      | (Some err, c') \<Rightarrow> ((False, message err), c'))"


subsection \<open>One step of the walk\<close>

text \<open>
  The walk either stops with \<open>(None, st)\<close> at the end of the tokens, or takes one
  successful step and goes on; every property of a successful walk is an induction over
  these two facts.
\<close>

lemma validate_loop_end:
  "\<not> i < length tokens \<Longrightarrow> validate_loop tokens i prev st = (None, st)"
  by (subst validate_loop.simps) simp

lemma validate_loop_None_step:
  assumes "i < length tokens" and "validate_loop tokens i prev st = (None, st')"
  obtains tt st'' where "token_type_of (tokens ! i) = Some tt"
    and "\<not> (i = 0 \<and> tt = Operator \<and> tokens ! i \<noteq> ''-'')"
    and "\<not> (prev = Some Function \<and> tt \<noteq> Open_bracket)"
    and "adjacency_error tokens i prev tt = None"
    and "bracket_step st (tokens ! i) tt i = (None, st'')"
    and "validate_loop tokens (Suc i) (Some tt) st'' = (None, st')"
  using assms
  by (subst (asm) validate_loop.simps)
    (auto simp: Let_def split: option.splits if_splits prod.splits)

lemma validate_loop_None_stepI:
  assumes "i < length tokens" and "token_type_of (tokens ! i) = Some tt"
    and "\<not> (i = 0 \<and> tt = Operator \<and> tokens ! i \<noteq> ''-'')"
    and "\<not> (prev = Some Function \<and> tt \<noteq> Open_bracket)"
    and "adjacency_error tokens i prev tt = None"
    and "bracket_step st (tokens ! i) tt i = (None, st'')"
  shows "validate_loop tokens i prev st = validate_loop tokens (Suc i) (Some tt) st''"
  using assms by (subst validate_loop.simps) (auto simp: Let_def)

lemma validate_loop_Some_step:
  assumes "i < length tokens" and "validate_loop tokens i prev st = (Some err, st')"
  shows "(token_type_of (tokens ! i) = None \<and> err = Unrecognized_token (tokens ! i) i) \<or>
         (\<exists>tt. token_type_of (tokens ! i) = Some tt \<and>
            ((i = 0 \<and> tt = Operator \<and> tokens ! i \<noteq> ''-'' \<and> err = Loop_start_operator (tokens ! i)) \<or>
             (prev = Some Function \<and> tt \<noteq> Open_bracket \<and>
              err = Function_without_bracket (tokens ! (i - 1))) \<or>
             adjacency_error tokens i prev tt = Some err \<or>
             fst (bracket_step st (tokens ! i) tt i) = Some err \<or>
             (\<not> (i = 0 \<and> tt = Operator \<and> tokens ! i \<noteq> ''-'') \<and>
              \<not> (prev = Some Function \<and> tt \<noteq> Open_bracket) \<and>
              adjacency_error tokens i prev tt = None \<and>
              (\<exists>st''. bracket_step st (tokens ! i) tt i = (None, st'') \<and>
                validate_loop tokens (Suc i) (Some tt) st'' = (Some err, st')))))"
  using assms
  by (subst (asm) validate_loop.simps)
    (auto simp: Let_def split: option.splits if_splits prod.splits)

lemma bracket_step_match_run:
  assumes "token_type_of t = Some tt" and "bracket_step st t tt i = (None, st')"
  shows "match_run st (t # r) = match_run st' r"
proof -
  have no: "t \<notin> opening_brackets" if "tt \<noteq> Open_bracket"
    using assms(1) that token_type_of_Open_iff [of t] by auto
  have nc: "t \<notin> closing_brackets" if "tt \<noteq> Close_bracket"
    using assms(1) that token_type_of_Close_iff [of t] by auto
  show ?thesis
  proof (cases "tt = Open_bracket")
    case True
    with assms show ?thesis by (simp add: bracket_step_def token_type_of_Open_iff)
  next
    case notopen: False
    show ?thesis
    proof (cases "tt = Close_bracket")
      case True
      with assms(1) have "t \<in> closing_brackets" by (simp add: token_type_of_Close_iff)
      with True notopen no assms(2) show ?thesis
        by (auto simp: bracket_step_def Let_def split: if_splits)
    next
      case False
      with notopen no nc assms(2) show ?thesis by (simp add: bracket_step_def)
    qed
  qed
qed

text \<open>Refinement: the stack a successful walk leaves is the stack discipline's result.\<close>

lemma validate_loop_match_run:
  "validate_loop tokens i prev st = (None, st') \<Longrightarrow> match_run st (drop i tokens) = Some st'"
proof (induction tokens i prev st rule: validate_loop.induct)
  case (1 tokens i prev st)
  show ?case
  proof (cases "i < length tokens")
    case False
    with "1.prems" show ?thesis by (simp add: validate_loop_end)
  next
    case True
    from validate_loop_None_step [OF True "1.prems"] obtain tt st'' where
      tt: "token_type_of (tokens ! i) = Some tt"
      and g1: "\<not> (i = 0 \<and> tt = Operator \<and> tokens ! i \<noteq> ''-'')"
      and g2: "\<not> (prev = Some Function \<and> tt \<noteq> Open_bracket)"
      and adj: "adjacency_error tokens i prev tt = None"
      and br: "bracket_step st (tokens ! i) tt i = (None, st'')"
      and rest: "validate_loop tokens (Suc i) (Some tt) st'' = (None, st')" .
    from "1.IH" [OF True refl tt g1 g2 adj br [symmetric] refl rest]
    have "match_run st'' (drop (Suc i) tokens) = Some st'" by blast
    with bracket_step_match_run [OF tt br] True show ?thesis
      by (simp add: drop_nth_Cons)
  qed
qed


subsection \<open>The errors of the walk\<close>

text \<open>
  The walk can only return the errors of lines 151--218, and it returns the error of
  line 165 (an operator other than \<^verbatim>\<open>-\<close> as first token) only at index 0.
\<close>

fun walk_error :: "syntax_error \<Rightarrow> bool" where
  "walk_error (Unrecognized_token _ _) = True"
| "walk_error (Loop_start_operator _) = True"
| "walk_error (Function_without_bracket _) = True"
| "walk_error Ends_with_operator = True"
| "walk_error (Operand_expected_after_operator _) = True"
| "walk_error (Expected_after_operand _ _) = True"
| "walk_error (Expected_after_open _) = True"
| "walk_error (Expected_after_close _) = True"
| "walk_error (Unmatched_closing _ _) = True"
| "walk_error (Mismatched_pair _ _ _) = True"
| "walk_error _ = False"

lemma validate_loop_walk_error:
  "validate_loop tokens i prev st = (Some err, st') \<Longrightarrow> walk_error err"
proof (induction tokens i prev st rule: validate_loop.induct)
  case (1 tokens i prev st)
  show ?case
  proof (cases "i < length tokens")
    case False
    with "1.prems" show ?thesis by (simp add: validate_loop_end)
  next
    case True
    with "1.prems" "1.IH" show ?thesis
      by (subst (asm) validate_loop.simps)
        (auto simp: Let_def adjacency_error_def bracket_step_def
          split: option.splits if_splits prod.splits)
  qed
qed

lemma validate_loop_Loop_start_operator:
  "validate_loop tokens i prev st = (Some (Loop_start_operator t), st') \<Longrightarrow>
   i = 0 \<and> tokens \<noteq> [] \<and> t = hd tokens \<and> token_type_of t = Some Operator \<and> t \<noteq> ''-''"
proof (induction tokens i prev st rule: validate_loop.induct)
  case (1 tokens i prev st)
  have i: "i < length tokens"
    using "1.prems" by (cases "i < length tokens") (simp_all add: validate_loop_end)
  from validate_loop_Some_step [OF i "1.prems"] show ?case
  proof (elim disjE exE conjE)
    fix tt st'' assume tt: "token_type_of (tokens ! i) = Some tt"
      and g1: "\<not> (i = 0 \<and> tt = Operator \<and> tokens ! i \<noteq> ''-'')"
      and g2: "\<not> (prev = Some Function \<and> tt \<noteq> Open_bracket)"
      and adj: "adjacency_error tokens i prev tt = None"
      and br: "bracket_step st (tokens ! i) tt i = (None, st'')"
      and r: "validate_loop tokens (Suc i) (Some tt) st'' = (Some (Loop_start_operator t), st')"
    from "1.IH" [OF i refl tt g1 g2 adj br [symmetric] refl r] show ?case by simp
  qed (use i in \<open>auto simp: adjacency_error_def bracket_step_def Let_def hd_conv_nth
      split: if_splits option.splits\<close>)
qed

subsection \<open>What a valid verdict says\<close>

lemma check_syntax_valid_D:
  assumes "fst (fst (check_syntax c e))"
  obtains tokens where "tokenize e = Inr tokens" and "tokens \<noteq> []"
    and "\<not> (hd tokens \<in> valid_operators \<and> hd tokens \<noteq> ''-'')"
    and "validate_loop tokens 0 None [] = (None, [])"
  using assms
  by (auto simp: check_syntax_def check_syntax_core_def
      split: if_splits sum.splits option.splits prod.splits)

lemma check_syntax_fst_core:
  "fst (check_syntax c e) =
     (case fst (check_syntax_core c e) of
        None \<Rightarrow> (True, ''Expression syntax is valid'')
      | Some err \<Rightarrow> (False, message err))"
  by (simp add: check_syntax_def split: prod.splits option.splits)

lemma tok_message_prefix: "take 7 (tok_message err) = ''Error: ''"
  by (cases err) simp_all

lemma message_prefix: "take 7 (message err) = ''Error: ''"
  by (cases err) (simp_all add: tok_message_prefix)

lemma check_syntax_message:
  "(case fst (check_syntax c e) of
      (True, m) \<Rightarrow> m = ''Expression syntax is valid''
    | (False, m) \<Rightarrow> take 7 m = ''Error: '')"
  by (simp add: check_syntax_fst_core message_prefix split: option.splits)

lemma check_syntax_core_fst_state:
  "fst (check_syntax_core c e) = fst (check_syntax_core c' e)"
  by (simp add: check_syntax_core_def split: sum.splits option.splits prod.splits)


lemma check_syntax_valid_match_run:
  assumes "fst (fst (check_syntax c e))" and "tokenize e = Inr tokens"
  shows "match_run [] tokens = Some []"
proof -
  from assms(1) obtain ts where ts: "tokenize e = Inr ts"
    and run: "validate_loop ts 0 None [] = (None, [])"
    by (rule check_syntax_valid_D)
  from ts assms(2) have "ts = tokens" by simp
  with validate_loop_match_run [OF run] show ?thesis by simp
qed


subsection \<open>Every position of a successful walk\<close>

text \<open>
  The category the walk carries into position \<open>k\<close>: nothing at the start, the
  category of token \<open>k - 1\<close> afterwards.
\<close>

definition prev_type :: "token list \<Rightarrow> nat \<Rightarrow> token_type option" where
  "prev_type tokens k = (if k = 0 then None else token_type_of (tokens ! (k - 1)))"

lemma validate_loop_positions:
  assumes "validate_loop tokens i prev st = (None, st')" and "prev = prev_type tokens i"
    and "i \<le> k" and "k < length tokens"
  shows "\<exists>tt. token_type_of (tokens ! k) = Some tt \<and>
              \<not> (prev_type tokens k = Some Function \<and> tt \<noteq> Open_bracket) \<and>
              adjacency_error tokens k (prev_type tokens k) tt = None"
  using assms
proof (induction tokens i prev st arbitrary: k rule: validate_loop.induct)
  case (1 tokens i prev st)
  from "1.prems" have i: "i < length tokens" by simp
  from validate_loop_None_step [OF i "1.prems"(1)] obtain tt st'' where
    tt: "token_type_of (tokens ! i) = Some tt"
    and g1: "\<not> (i = 0 \<and> tt = Operator \<and> tokens ! i \<noteq> ''-'')"
    and g2: "\<not> (prev = Some Function \<and> tt \<noteq> Open_bracket)"
    and adj: "adjacency_error tokens i prev tt = None"
    and br: "bracket_step st (tokens ! i) tt i = (None, st'')"
    and rest: "validate_loop tokens (Suc i) (Some tt) st'' = (None, st')" .
  show ?case
  proof (cases "k = i")
    case True
    with tt g2 adj "1.prems"(2) show ?thesis by blast
  next
    case False
    with "1.prems"(3) have "Suc i \<le> k" by simp
    moreover have "Some tt = prev_type tokens (Suc i)" using tt by (simp add: prev_type_def)
    ultimately show ?thesis
      using "1.IH" [OF i refl tt g1 g2 adj br [symmetric] refl rest] "1.prems"(4) by blast
  qed
qed

lemma check_syntax_valid_positions:
  assumes "fst (fst (check_syntax c e))" and "tokenize e = Inr tokens" and "k < length tokens"
  shows "\<exists>tt. token_type_of (tokens ! k) = Some tt \<and>
              \<not> (prev_type tokens k = Some Function \<and> tt \<noteq> Open_bracket) \<and>
              adjacency_error tokens k (prev_type tokens k) tt = None"
proof -
  from assms(1) obtain ts where ts: "tokenize e = Inr ts"
    and run: "validate_loop ts 0 None [] = (None, [])"
    by (rule check_syntax_valid_D)
  from ts assms(2) have "ts = tokens" by simp
  with run validate_loop_positions [of tokens 0 None "[]" "[]" k] assms(3) show ?thesis
    by (simp add: prev_type_def)
qed

text \<open>What \<open>adjacency_error\<close> rules out, one rule per lemma.\<close>

lemma adjacency_none_operator_last:
  "adjacency_error tokens k p Operator = None \<Longrightarrow> k < length tokens \<Longrightarrow> Suc k < length tokens"
  by (auto simp: adjacency_error_def split: if_splits)

lemma adjacency_none_after_operand:
  "adjacency_error tokens k (Some p) tt = None \<Longrightarrow> p \<in> {Number, Variable} \<Longrightarrow> tt \<noteq> Number"
  by (auto simp: adjacency_error_def)

lemma adjacency_none_after_close:
  "adjacency_error tokens k (Some Close_bracket) tt = None \<Longrightarrow> tt \<noteq> Number"
  by (auto simp: adjacency_error_def)

subsection \<open>The checker object's state\<close>

text \<open>
  C2: the verdict and the message of \<^verbatim>\<open>check_syntax\<close> do not depend on the bracket
  stack a checker object kept from an earlier call: line 148 resets \<^verbatim>\<open>self.stack\<close>
  before the walk, so a long-lived checker answers as a fresh one does.
\<close>

theorem check_syntax_verdict_state_independent:
  "fst (check_syntax c e) = fst (check_syntax init_checker e)"
  by (simp add: check_syntax_fst_core check_syntax_core_fst_state [of c e init_checker])

text \<open>
  C21: calling \<^verbatim>\<open>check_syntax\<close> twice on the same string, the second time on the
  checker the first call left, gives the same verdict, message and final state.
\<close>

theorem check_syntax_idempotent:
  "check_syntax (snd (check_syntax c e)) e = check_syntax c e"
  by (simp add: check_syntax_def check_syntax_core_def
      split: sum.splits option.splits prod.splits)

subsection \<open>Brackets of an accepted expression\<close>

text \<open>
  C1: when \<^verbatim>\<open>check_syntax\<close> reports an expression valid, the bracket characters of
  the input string, read left to right, form a properly nested word of the grammar
  \<open>Brackets.nested\<close>: every closer meets the opener \<^verbatim>\<open>bracket_pairs\<close> gives it
  and no opener is left open (the balance invariant of the specification).
\<close>

theorem check_syntax_valid_brackets_nested:
  assumes "fst (fst (check_syntax c e))"
  shows "nested (map (\<lambda>ch. [ch]) (filter bracket_char e))"
proof -
  from assms obtain ts where ts: "tokenize e = Inr ts"
    by (rule check_syntax_valid_D)
  from check_syntax_valid_match_run [OF assms ts]
  have "nested (filter is_bracket ts)" by (simp add: match_run_iff_nested)
  with tokenize_bracket_tokens [OF ts] show ?thesis by simp
qed

text \<open>Witness: \<^verbatim>\<open>{[x]} + sin(y)\<close> is accepted, and its brackets are nested.\<close>

theorem check_syntax_valid_brackets_nested_witness:
  "fst (fst (check_syntax init_checker ''{[x]} + sin(y)'')) \<and>
   nested (map (\<lambda>ch. [ch]) (filter bracket_char ''{[x]} + sin(y)''))"
proof -
  have v: "fst (fst (check_syntax init_checker ''{[x]} + sin(y)''))" by code_simp
  from v check_syntax_valid_brackets_nested [OF v] show ?thesis by simp
qed

subsection \<open>Adjacency guarantees of an accepted expression\<close>

text \<open>
  C5: an accepted expression never ends with an operator token.
\<close>

theorem check_syntax_valid_last_not_operator:
  assumes "fst (fst (check_syntax c e))" and "tokenize e = Inr tokens"
  shows "token_type_of (last tokens) \<noteq> Some Operator"
proof
  assume op: "token_type_of (last tokens) = Some Operator"
  from assms(1) obtain ts where "tokenize e = Inr ts" and ne: "ts \<noteq> []"
    by (rule check_syntax_valid_D)
  with assms(2) have ne: "tokens \<noteq> []" by simp
  then have k: "length tokens - 1 < length tokens" and l: "last tokens = tokens ! (length tokens - 1)"
    by (simp_all add: last_conv_nth)
  from check_syntax_valid_positions [OF assms k] op l
  have "adjacency_error tokens (length tokens - 1) (prev_type tokens (length tokens - 1)) Operator = None"
    by auto
  from adjacency_none_operator_last [OF this k] show False by simp
qed

theorem check_syntax_valid_last_not_operator_witness:
  "fst (fst (check_syntax init_checker ''2 + x'')) \<and> tokenize ''2 + x'' = Inr [''2'', ''+'', ''x''] \<and>
   token_type_of (last [''2'', ''+'', ''x'']) \<noteq> Some Operator"
proof -
  have v: "fst (fst (check_syntax init_checker ''2 + x''))" by code_simp
  have t: "tokenize ''2 + x'' = Inr [''2'', ''+'', ''x'']" by code_simp
  from v t check_syntax_valid_last_not_operator [OF v t] show ?thesis by simp
qed

text \<open>
  C6: in an accepted expression, a function name that is not the last token is
  immediately followed by an opening bracket.
\<close>

theorem check_syntax_valid_function_then_bracket:
  assumes "fst (fst (check_syntax c e))" and "tokenize e = Inr tokens"
    and "Suc k < length tokens" and "token_type_of (tokens ! k) = Some Function"
  shows "token_type_of (tokens ! Suc k) = Some Open_bracket"
proof -
  from check_syntax_valid_positions [OF assms(1,2,3)] obtain tt
    where tt: "token_type_of (tokens ! Suc k) = Some tt"
      and g: "\<not> (prev_type tokens (Suc k) = Some Function \<and> tt \<noteq> Open_bracket)"
    by blast
  from assms(4) have "prev_type tokens (Suc k) = Some Function" by (simp add: prev_type_def)
  with tt g show ?thesis by simp
qed

theorem check_syntax_valid_function_then_bracket_witness:
  "fst (fst (check_syntax init_checker ''sqrt(x)'')) \<and>
   tokenize ''sqrt(x)'' = Inr [''sqrt'', ''('', ''x'', '')''] \<and>
   Suc 0 < length [''sqrt'', ''('', ''x'', '')''] \<and>
   token_type_of ([''sqrt'', ''('', ''x'', '')''] ! 0) = Some Function \<and>
   token_type_of ([''sqrt'', ''('', ''x'', '')''] ! Suc 0) = Some Open_bracket"
proof -
  have v: "fst (fst (check_syntax init_checker ''sqrt(x)''))" by code_simp
  have t: "tokenize ''sqrt(x)'' = Inr [''sqrt'', ''('', ''x'', '')'']" by code_simp
  have f: "token_type_of ([''sqrt'', ''('', ''x'', '')''] ! 0) = Some Function" by code_simp
  from v t f check_syntax_valid_function_then_bracket [OF v t _ f] show ?thesis by simp
qed

text \<open>
  C7: in an accepted expression, a number never directly follows a number, a variable
  or a closing bracket (implicit multiplication is allowed before a variable, a function
  or an opening bracket only).
\<close>

theorem check_syntax_valid_no_number_after_operand:
  assumes "fst (fst (check_syntax c e))" and "tokenize e = Inr tokens"
    and "Suc k < length tokens"
    and "token_type_of (tokens ! k) \<in> {Some Number, Some Variable, Some Close_bracket}"
  shows "token_type_of (tokens ! Suc k) \<noteq> Some Number"
proof
  assume num: "token_type_of (tokens ! Suc k) = Some Number"
  from check_syntax_valid_positions [OF assms(1,2,3)] num
  have adj: "adjacency_error tokens (Suc k) (prev_type tokens (Suc k)) Number = None" by auto
  from assms(4) consider "prev_type tokens (Suc k) = Some Number"
    | "prev_type tokens (Suc k) = Some Variable" | "prev_type tokens (Suc k) = Some Close_bracket"
    by (auto simp: prev_type_def)
  then show False
  proof cases
    case 1
    with adj adjacency_none_after_operand [of tokens "Suc k" Number Number] show False by simp
  next
    case 2
    with adj adjacency_none_after_operand [of tokens "Suc k" Variable Number] show False by simp
  next
    case 3
    with adj adjacency_none_after_close [of tokens "Suc k" Number] show False by simp
  qed
qed

theorem check_syntax_valid_no_number_after_operand_witness:
  "fst (fst (check_syntax init_checker ''2x'')) \<and> tokenize ''2x'' = Inr [''2'', ''x''] \<and>
   Suc 0 < length [''2'', ''x''] \<and>
   token_type_of ([''2'', ''x''] ! 0) \<in> {Some Number, Some Variable, Some Close_bracket} \<and>
   token_type_of ([''2'', ''x''] ! Suc 0) \<noteq> Some Number"
proof -
  have v: "fst (fst (check_syntax init_checker ''2x''))" by code_simp
  have t: "tokenize ''2x'' = Inr [''2'', ''x'']" by code_simp
  have n: "token_type_of ([''2'', ''x''] ! 0) \<in> {Some Number, Some Variable, Some Close_bracket}"
    by code_simp
  from v t n check_syntax_valid_no_number_after_operand [OF v t _ n] show ?thesis by simp
qed


subsection \<open>Unreachable branches\<close>

text \<open>
  C11: two error branches of \<^verbatim>\<open>check_syntax\<close> are dead code: the message
  \<^verbatim>\<open>No valid tokens found in expression\<close> (line 117) is never returned, since an
  input that is not blank always yields a token or a lexical error, and the walk's
  \<^verbatim>\<open>Expression cannot start with operator\<close> (line 166) is never returned, since
  the same condition was rejected before the walk (line 121).
\<close>

theorem check_syntax_dead_errors:
  "fst (check_syntax_core c e) \<noteq> Some No_valid_tokens \<and>
   fst (check_syntax_core c e) \<noteq> Some (Loop_start_operator t)"
proof
  show "fst (check_syntax_core c e) \<noteq> Some No_valid_tokens"
    using tokenize_nonblank_nonempty [of e] validate_loop_walk_error [of _ 0 None "[]" No_valid_tokens]
    by (fastforce simp: check_syntax_core_def py_strip_empty_iff
        split: sum.splits if_splits prod.splits option.splits)
next
  show "fst (check_syntax_core c e) \<noteq> Some (Loop_start_operator t)"
  proof
    assume a: "fst (check_syntax_core c e) = Some (Loop_start_operator t)"
    then obtain tokens st where tk: "tokenize e = Inr tokens"
      and ns: "\<not> (hd tokens \<in> valid_operators \<and> hd tokens \<noteq> ''-'')"
      and v: "validate_loop tokens 0 None [] = (Some (Loop_start_operator t), st)"
      by (auto simp: check_syntax_core_def split: sum.splits if_splits prod.splits option.splits)
    from validate_loop_Loop_start_operator [OF v] ns show False
      by (auto simp: token_type_of_Operator_iff)
  qed
qed

end
