(* ===== verification/Gui.thy ===== *)
theory Gui
  imports Validator
begin

section \<open>The window: entry, result label and example buttons\<close>

text \<open>
  The Tkinter layer (lines 230--388) as a state machine. The state is what the handlers
  read and write: the text of the entry widget and the text, colour and wrap length of
  the result label. The handlers are \<^verbatim>\<open>check_expression\<close> (lines 231--246) and
  \<^verbatim>\<open>insert_example\<close> (lines 251--255); the buttons (lines 282--289, 314--330,
  355--372) bind them to clicks, and \<^verbatim>\<open>root.mainloop()\<close> (line 388) runs them one
  event at a time. The two marks that open the status text, U+2705 and U+274C, lie
  outside the 8-bit \<open>char\<close> of HOL and are the constructors of \<open>mark\<close>.
\<close>

datatype mark = Check_mark | Cross_mark

datatype label_text = Plain string | Marked mark string

datatype color = Green | Red

record result_label =
  label_text :: label_text
  label_color :: "color option"
  label_wrap :: nat

record gui =
  entry :: string
  result :: result_label

text \<open>Lines 378--384: the label as created, in the theme's colour.\<close>

definition init_label :: result_label where
  "init_label =
     \<lparr>label_text = Plain ''Enter an expression and click 'Check Syntax' or select an example'',
      label_color = None, label_wrap = 600\<rparr>"

text \<open>
  Line 278: the entry starts empty; \<^verbatim>\<open>CTkEntry.get\<close> returns the empty string while
  the placeholder is shown.
\<close>

definition init_gui :: gui where
  "init_gui = \<lparr>entry = [], result = init_label\<rparr>"

text \<open>Lines 231--246.\<close>

definition check_expression :: "gui \<Rightarrow> gui" where
  "check_expression g =
     (let expression = entry g;
          checker = init_checker;
          (valid, message) = fst (check_syntax checker expression);
          (status_text, text_color) =
            (if valid then (Marked Check_mark ('' Valid: '' @ message), Green)
             else (Marked Cross_mark ('' Invalid: '' @ message), Red))
      in g\<lparr>result := (result g)\<lparr>label_text := status_text, label_color := Some text_color,
                                 label_wrap := 450\<rparr>\<rparr>)"

text \<open>
  Lines 252--253: \<^verbatim>\<open>Entry.delete(first, last)\<close> removes the characters from
  \<open>first\<close> up to \<open>last\<close> (\<open>last_index\<close> here) (\<^verbatim>\<open>tk.END\<close> is the length), \<^verbatim>\<open>Entry.insert(index, s)\<close>
  inserts \<open>s\<close> before \<open>index\<close>.
\<close>

definition entry_delete :: "nat \<Rightarrow> nat \<Rightarrow> string \<Rightarrow> string" where
  "entry_delete first last_index s = take first s @ drop last_index s"

definition entry_insert :: "nat \<Rightarrow> string \<Rightarrow> string \<Rightarrow> string" where
  "entry_insert index t s = take index s @ t @ drop index s"

text \<open>Lines 251--255.\<close>

definition insert_example :: "string \<Rightarrow> gui \<Rightarrow> gui" where
  "insert_example example g =
     (let g1 = g\<lparr>entry := entry_delete 0 (length (entry g)) (entry g)\<rparr>;
          g2 = g1\<lparr>entry := entry_insert 0 example (entry g1)\<rparr>
      in check_expression g2)"

text \<open>Lines 314--321 and 355--362: the example buttons, with the grid cell each is placed in.\<close>

record button =
  btn_text :: string
  btn_example :: string
  btn_row :: nat
  btn_column :: nat

definition example_buttons :: "button list" where
  "example_buttons =
     [\<lparr>btn_text = ''2 + 3 * 4'', btn_example = ''2 + 3 * 4'', btn_row = 0, btn_column = 0\<rparr>,
      \<lparr>btn_text = ''sin(x) + cos(y)'', btn_example = ''sin(x) + cos(y)'', btn_row = 0, btn_column = 1\<rparr>,
      \<lparr>btn_text = ''(a + b) * (c - d)'', btn_example = ''(a + b) * (c - d)'', btn_row = 0, btn_column = 2\<rparr>,
      \<lparr>btn_text = ''sqrt(x^2 + y^2)'', btn_example = ''sqrt(x^2 + y^2)'', btn_row = 1, btn_column = 0\<rparr>,
      \<lparr>btn_text = ''2x + 3(y - z)'', btn_example = ''2x + 3(y - z)'', btn_row = 1, btn_column = 1\<rparr>,
      \<lparr>btn_text = ''log(10) + exp(-x^2) / (1 + x^2)'', btn_example = ''log(10) + exp(-x^2) / (1 + x^2)'',
       btn_row = 1, btn_column = 2\<rparr>]"

definition invalid_buttons :: "button list" where
  "invalid_buttons =
     [\<lparr>btn_text = ''2 +'', btn_example = ''2 +'', btn_row = 0, btn_column = 0\<rparr>,
      \<lparr>btn_text = ''* 2 + 3'', btn_example = ''* 2 + 3'', btn_row = 0, btn_column = 1\<rparr>,
      \<lparr>btn_text = ''2..5'', btn_example = ''2..5'', btn_row = 0, btn_column = 2\<rparr>,
      \<lparr>btn_text = ''(2 + 3'', btn_example = ''(2 + 3'', btn_row = 1, btn_column = 0\<rparr>,
      \<lparr>btn_text = ''sin 2'', btn_example = ''sin 2'', btn_row = 1, btn_column = 1\<rparr>,
      \<lparr>btn_text = ''sqrt(x^2 + y^2'', btn_example = ''sqrt(x^2 + y^2'', btn_row = 1, btn_column = 2\<rparr>]"

text \<open>
  Lines 323--330 and 364--372: each button's command is
  \<^verbatim>\<open>lambda ex=btn["example"]: insert_example(ex)\<close>; the default argument binds the
  example of that button when the button is made.
\<close>

definition button_command :: "button list \<Rightarrow> nat \<Rightarrow> gui \<Rightarrow> gui" where
  "button_command buttons k = insert_example (btn_example (buttons ! k))"

text \<open>
  The events of the main loop: the user edits the entry (any text may result), presses
  \<^verbatim>\<open>Check Syntax\<close> (line 285), or presses the \<open>k\<close>-th button of one of the two
  example frames; a button index names one of the buttons that exist.
\<close>

datatype event = Edit string | Press_check | Press_valid nat | Press_invalid nat

fun gui_step :: "gui \<Rightarrow> event \<Rightarrow> gui option" where
  "gui_step g (Edit s) = Some (g\<lparr>entry := s\<rparr>)"
| "gui_step g Press_check = Some (check_expression g)"
| "gui_step g (Press_valid k) =
     (if k < length example_buttons then Some (button_command example_buttons k g) else None)"
| "gui_step g (Press_invalid k) =
     (if k < length invalid_buttons then Some (button_command invalid_buttons k g) else None)"

inductive gui_reach :: "gui \<Rightarrow> bool" where
  start: "gui_reach init_gui"
| step: "gui_reach g \<Longrightarrow> gui_step g ev = Some g' \<Longrightarrow> gui_reach g'"

fun gui_run :: "gui \<Rightarrow> event list \<Rightarrow> gui option" where
  "gui_run g [] = Some g"
| "gui_run g (ev # evs) = (case gui_step g ev of None \<Rightarrow> None | Some g' \<Rightarrow> gui_run g' evs)"


subsection \<open>What the label shows\<close>

definition verdict_label :: "string \<Rightarrow> label_text \<times> color" where
  "verdict_label s =
     (case fst (check_syntax init_checker s) of
        (True, msg) \<Rightarrow> (Marked Check_mark ('' Valid: '' @ msg), Green)
      | (False, msg) \<Rightarrow> (Marked Cross_mark ('' Invalid: '' @ msg), Red))"

definition label_ok :: "result_label \<Rightarrow> bool" where
  "label_ok l \<longleftrightarrow>
     (case label_text l of
        Plain t \<Rightarrow> l = init_label
      | Marked Check_mark t \<Rightarrow>
          label_color l = Some Green \<and> label_wrap l = 450 \<and> t = '' Valid: Expression syntax is valid''
      | Marked Cross_mark t \<Rightarrow>
          label_color l = Some Red \<and> label_wrap l = 450 \<and>
          take 10 t = '' Invalid: '' \<and> take 7 (drop 10 t) = ''Error: '')"

lemma check_expression_result:
  "result (check_expression g) =
     \<lparr>label_text = fst (verdict_label (entry g)), label_color = Some (snd (verdict_label (entry g))),
      label_wrap = 450\<rparr>"
  by (cases "result g")
    (simp add: check_expression_def verdict_label_def split: prod.splits bool.splits)

lemma check_expression_entry [simp]: "entry (check_expression g) = entry g"
  by (simp add: check_expression_def split: prod.splits)

lemma insert_example_entry [simp]: "entry (insert_example ex g) = ex"
  by (simp add: insert_example_def entry_delete_def entry_insert_def)

lemma insert_example_result:
  "result (insert_example ex g) = result (check_expression (g\<lparr>entry := ex\<rparr>))"
  by (simp add: insert_example_def entry_delete_def entry_insert_def check_expression_def)

lemma verdict_label_ok:
  "label_ok \<lparr>label_text = fst (verdict_label s), label_color = Some (snd (verdict_label s)),
             label_wrap = 450\<rparr>"
  using check_syntax_message [of init_checker s]
  by (auto simp: verdict_label_def label_ok_def split: prod.splits bool.splits)

lemma check_expression_label_ok: "label_ok (result (check_expression g))"
  using verdict_label_ok [of "entry g"] by (simp add: check_expression_result)

lemma button_command_result:
  "result (button_command buttons k g) = result (check_expression (g\<lparr>entry := btn_example (buttons ! k)\<rparr>))"
  by (simp add: button_command_def insert_example_result)

lemma gui_step_label_ok:
  "gui_step g ev = Some g' \<Longrightarrow> label_ok (result g) \<Longrightarrow> label_ok (result g')"
  by (cases ev) (auto simp: button_command_result check_expression_label_ok split: if_splits)

lemma gui_run_reach: "gui_run g evs = Some g' \<Longrightarrow> gui_reach g \<Longrightarrow> gui_reach g'"
  by (induction g evs rule: gui_run.induct) (auto intro: gui_reach.step split: option.splits)

lemma example_verdicts:
  "list_all (\<lambda>b. snd (verdict_label (btn_example b)) = Green) example_buttons"
  "list_all (\<lambda>b. snd (verdict_label (btn_example b)) = Red) invalid_buttons"
  by code_simp+

lemma button_command_label:
  "label_color (result (button_command buttons k g)) = Some (snd (verdict_label (btn_example (buttons ! k))))"
  by (simp add: button_command_result check_expression_result)

lemma button_command_entry: "entry (button_command buttons k g) = btn_example (buttons ! k)"
  by (simp add: button_command_def)

definition displays_verdict :: "gui \<Rightarrow> bool" where
  "displays_verdict g \<longleftrightarrow>
     label_text (result g) = fst (verdict_label (entry g)) \<and>
     label_color (result g) = Some (snd (verdict_label (entry g)))"

lemma gui_run_snoc:
  "gui_run g (evs @ [ev]) = (case gui_run g evs of None \<Rightarrow> None | Some g1 \<Rightarrow> gui_step g1 ev)"
  by (induction g evs rule: gui_run.induct) (auto split: option.splits)

lemma gui_step_press_displays:
  "gui_step g ev = Some g' \<Longrightarrow> \<not> (\<exists>s. ev = Edit s) \<Longrightarrow> displays_verdict g'"
  by (cases ev)
    (auto simp: displays_verdict_def check_expression_result button_command_entry
      button_command_result split: if_splits)

section \<open>Properties of the window\<close>

text \<open>
  C15: in every state the window can reach, the result label is consistent: it is the
  initial prompt, or the check mark in green with the text \<^verbatim>\<open>Valid: Expression
  syntax is valid\<close>, or the cross in red with \<^verbatim>\<open>Invalid: Error: \<close> and a message;
  both marked forms have wrap length 450.
\<close>

theorem gui_label_invariant: "gui_reach g \<Longrightarrow> label_ok (result g)"
proof (induction rule: gui_reach.induct)
  case start
  then show ?case by (simp add: init_gui_def label_ok_def init_label_def)
next
  case (step g ev g')
  from gui_step_label_ok [OF step.hyps(2) step.IH] show ?case .
qed

theorem gui_label_invariant_witness:
  "gui_reach (button_command invalid_buttons 0 init_gui) \<and>
   label_ok (result (button_command invalid_buttons 0 init_gui))"
proof -
  have s: "gui_step init_gui (Press_invalid 0) = Some (button_command invalid_buttons 0 init_gui)"
    by (simp add: invalid_buttons_def)
  have r: "gui_reach (button_command invalid_buttons 0 init_gui)"
    by (rule gui_reach.step [OF gui_reach.start s])
  from r gui_label_invariant [OF r] show ?thesis by simp
qed

text \<open>
  C14: pressing the \<open>k\<close>-th example button puts that button's example, not another
  one, into the entry and shows its verdict: green for every button of the frame
  \<^verbatim>\<open>Valid Examples\<close>, red for every button of \<^verbatim>\<open>Invalid Examples\<close>, whatever
  the window showed before.
\<close>

theorem example_button_press:
  assumes "gui_step g ev = Some g'"
  shows "case ev of
           Press_valid k \<Rightarrow>
             entry g' = btn_example (example_buttons ! k) \<and> label_color (result g') = Some Green
         | Press_invalid k \<Rightarrow>
             entry g' = btn_example (invalid_buttons ! k) \<and> label_color (result g') = Some Red
         | _ \<Rightarrow> True"
  using assms example_verdicts
  by (cases ev) (auto simp: button_command_label button_command_entry list_all_length split: if_splits)

theorem example_button_press_witness:
  "gui_step init_gui (Press_valid 4) = Some (button_command example_buttons 4 init_gui) \<and>
   entry (button_command example_buttons 4 init_gui) = ''2x + 3(y - z)'' \<and>
   label_color (result (button_command example_buttons 4 init_gui)) = Some Green"
proof -
  have s: "gui_step init_gui (Press_valid 4) = Some (button_command example_buttons 4 init_gui)"
    by (simp add: example_buttons_def)
  from example_button_press [OF s] s show ?thesis by (simp add: example_buttons_def)
qed

text \<open>
  C25: the order of events decides what the label shows: after any run of events whose
  last event is a press (of \<^verbatim>\<open>Check Syntax\<close> or of an example button), the label
  shows the verdict of the text in the entry; only an edit as last event can leave it stale,
  since typing does not re-check.
\<close>

theorem gui_last_press_displays:
  assumes "gui_run g (evs @ [ev]) = Some g'" and "\<not> (\<exists>s. ev = Edit s)"
  shows "displays_verdict g'"
proof -
  from assms(1) obtain g1 where "gui_step g1 ev = Some g'"
    by (auto simp: gui_run_snoc split: option.splits)
  from gui_step_press_displays [OF this assms(2)] show ?thesis .
qed

theorem gui_last_press_displays_witness:
  "gui_run init_gui ([Press_invalid 0, Edit ''2 * x''] @ [Press_check]) =
     Some (check_expression ((button_command invalid_buttons 0 init_gui)\<lparr>entry := ''2 * x''\<rparr>)) \<and>
   \<not> (\<exists>s. Press_check = Edit s) \<and>
   displays_verdict (check_expression ((button_command invalid_buttons 0 init_gui)\<lparr>entry := ''2 * x''\<rparr>)) \<and>
   \<not> displays_verdict ((button_command invalid_buttons 0 init_gui)\<lparr>entry := ''2 * x''\<rparr>)"
proof -
  have r: "gui_run init_gui ([Press_invalid 0, Edit ''2 * x''] @ [Press_check]) =
     Some (check_expression ((button_command invalid_buttons 0 init_gui)\<lparr>entry := ''2 * x''\<rparr>))"
    by (simp add: invalid_buttons_def)
  have n: "\<not> (\<exists>s. Press_check = Edit s)" by simp
  have stale: "\<not> displays_verdict ((button_command invalid_buttons 0 init_gui)\<lparr>entry := ''2 * x''\<rparr>)"
    by code_simp
  from gui_last_press_displays [OF r n] r n stale show ?thesis by simp
qed

end
