(* ===== verification/Tokenizer_Spec.thy ===== *)
theory Tokenizer_Spec
  imports Tokenizer
begin

section \<open>The tokenizer of the specification, and the refinement\<close>

text \<open>
  The specification (section 4.1) decides whether a \<^verbatim>\<open>-\<close> starts a signed number
  from its position (index 0) and the previously emitted token only, ``not raw character
  lookback''. The code (lines 45--48, \<open>sign_context\<close>) also looks at the character
  before the minus. \<open>tokenize_spec\<close> is the tokenizer of the specification: the loop of
  \<open>Tokenizer\<close> with the specification's test \<open>sign_context_spec\<close>. The invariant
  \<open>lookback_inv\<close> of the loop says that a non-blank character just before the index
  is the last character of the last token, and is that whole token when it is an
  operator or an opening bracket; under it the two tests agree, so the two tokenizers are
  equal (\<open>tokenize_eq_spec\<close>).
\<close>

definition sign_context_spec :: "nat \<Rightarrow> token list \<Rightarrow> bool" where
  "sign_context_spec i tokens \<longleftrightarrow>
     i = 0 \<or> (tokens \<noteq> [] \<and> (last tokens \<in> valid_operators \<or> last tokens \<in> opening_brackets))"

function tokenize_loop_spec :: "string \<Rightarrow> nat \<Rightarrow> token list \<Rightarrow> tok_error + token list" where
  "tokenize_loop_spec e i tokens =
     (if i < length e then
        (let c = e ! i in
         if py_isspace c then tokenize_loop_spec e (Suc i) tokens
         else if c = CHR ''-'' \<and> sign_context_spec i tokens then
           (if Suc i < length e \<and> e ! Suc i = CHR ''-'' then tokenize_loop_spec e (Suc i) (tokens @ [[c]])
            else
              (let j = skip_spaces e (Suc i) in
               if j < length e \<and> (py_isdigit (e ! j) \<or> e ! j = CHR ''.'') then
                 (case scan_number e j False of
                    Inl err \<Rightarrow> Inl err
                  | Inr k \<Rightarrow> tokenize_loop_spec e k (tokens @ [slice e i k]))
               else tokenize_loop_spec e (Suc i) (tokens @ [[c]])))
         else if py_isdigit c \<or> (c = CHR ''.'' \<and> Suc i < length e \<and> py_isdigit (e ! Suc i)) then
           (case scan_number e i False of
              Inl err \<Rightarrow> Inl err
            | Inr j \<Rightarrow> tokenize_loop_spec e j (tokens @ [slice e i j]))
         else if py_isalpha c \<or> c = CHR ''_'' then
           (let j = scan_ident e i in tokenize_loop_spec e j (tokens @ [slice e i j]))
         else if [c] \<in> valid_operators \<or> [c] \<in> opening_brackets \<or> [c] \<in> closing_brackets then
           tokenize_loop_spec e (Suc i) (tokens @ [[c]])
         else Inl (Invalid_character c i))
      else Inr tokens)"
  by pat_completeness auto
termination
  apply (relation "measure (\<lambda>(e, i, tokens). length e - i)")
          apply simp_all
  subgoal by linarith
  subgoal for e i tokens xa b
    using skip_spaces_ge [of "Suc i" e] scan_number_ge [of e "skip_spaces e (Suc i)" False b]
    by linarith
  subgoal for e i tokens x b
    using scan_number_gt [of e i False b] by auto
  subgoal for e i tokens x xa
    using scan_ident_gt [of i e] py_isalpha_isalnum [of "e ! i"] by auto
  done

declare tokenize_loop_spec.simps [simp del]

definition tokenize_spec :: "string \<Rightarrow> tok_error + token list" where
  "tokenize_spec e = tokenize_loop_spec e 0 []"

abbreviation sign_char :: "char \<Rightarrow> bool" where
  "sign_char c \<equiv> [c] \<in> valid_operators \<or> [c] \<in> opening_brackets"

definition lookback_inv :: "string \<Rightarrow> nat \<Rightarrow> token list \<Rightarrow> bool" where
  "lookback_inv e i tokens \<longleftrightarrow>
     i \<le> length e \<and>
     (0 < i \<and> \<not> py_isspace (e ! (i - 1)) \<longrightarrow>
        tokens \<noteq> [] \<and> last tokens \<noteq> [] \<and> last (last tokens) = e ! (i - 1) \<and>
        (sign_char (e ! (i - 1)) \<longrightarrow> last tokens = [e ! (i - 1)]))"

lemma sign_char_not_space: "sign_char c \<Longrightarrow> \<not> py_isspace c"
  by (auto simp: valid_operators_def opening_brackets_def py_isspace_def)

lemma number_char_not_sign: "number_char c \<Longrightarrow> \<not> sign_char c"
  using bracket_char_not_lexical
  by (auto simp: valid_operators_def opening_brackets_def py_char_defs)

lemma sign_context_lookback:
  assumes "lookback_inv e i tokens"
  shows "sign_context e i tokens = sign_context_spec i tokens"
  using assms sign_char_not_space [of "e ! (i - 1)"]
  by (auto simp: sign_context_def sign_context_spec_def lookback_inv_def)

lemma lookback_inv_start: "lookback_inv e 0 []"
  by (simp add: lookback_inv_def)

lemma lookback_inv_skip:
  "i < length e \<Longrightarrow> py_isspace (e ! i) \<Longrightarrow> lookback_inv e (Suc i) tokens"
  by (simp add: lookback_inv_def)

lemma lookback_inv_emit:
  assumes "i < j" and "j \<le> length e" and "j = Suc i \<or> \<not> sign_char (e ! (j - 1))"
  shows "lookback_inv e j (tokens @ [slice e i j])"
proof -
  have ne: "slice e i j \<noteq> []" using assms(1,2) by (rule slice_nonempty)
  have "last (slice e i j) = slice e i j ! (j - i - 1)"
    using ne assms(2) by (simp add: last_conv_nth)
  also have "\<dots> = e ! (j - 1)" using assms(1,2) by (simp add: nth_slice)
  finally have l: "last (slice e i j) = e ! (j - 1)" .
  have "slice e i j = [e ! i]" if "j = Suc i" using that assms(2) slice_Suc_single [of i e] by simp
  with assms ne l show ?thesis by (auto simp: lookback_inv_def)
qed

lemma last_slice_char:
  assumes "P (e ! i)" "list_all P (slice e i j)" "i < j" "j \<le> length e"
  shows "P (e ! (j - 1))"
proof -
  have "e ! (j - 1) \<in> set (slice e i j)"
    using assms(3,4) nth_slice [of "j - i - 1" j i e] nth_mem [of "j - i - 1" "slice e i j"]
    by simp
  with assms(2) show ?thesis by (simp add: list_all_iff)
qed

lemma tokenize_loop_spec_eq:
  "lookback_inv e i tokens \<Longrightarrow> tokenize_loop e i tokens = tokenize_loop_spec e i tokens"
proof (induction e i tokens rule: tokenize_loop_spec.induct)
  case (1 e i tokens)
  note unf = tokenize_loop.simps [of e i tokens] tokenize_loop_spec.simps [of e i tokens]
  show ?case
  proof (cases "i < length e")
    case False
    then show ?thesis by (simp add: unf)
  next
    case i: True
    have sc: "sign_context e i tokens = sign_context_spec i tokens"
      using "1.prems" by (rule sign_context_lookback)
    show ?thesis
    proof (cases "py_isspace (e ! i)")
      case True
      with "1.IH"(1) [OF i refl True lookback_inv_skip [OF i True]] i show ?thesis
        by (auto simp: unf Let_def)
    next
      case nsp: False
      show ?thesis
      proof (cases "e ! i = CHR ''-'' \<and> sign_context_spec i tokens")
        case minus: True
        have single: "[e ! i] = slice e i (Suc i)" using i slice_Suc_single [of i e] by simp
        have inv1: "lookback_inv e (Suc i) (tokens @ [[e ! i]])"
          using lookback_inv_emit [of i "Suc i" e tokens] i single by simp
        show ?thesis
        proof (cases "Suc i < length e \<and> e ! Suc i = CHR ''-''")
          case True
          with "1.IH"(2) [OF i refl nsp minus True inv1] i nsp minus sc show ?thesis
            by (auto simp: unf Let_def)
        next
          case nodbl: False
          let ?j = "skip_spaces e (Suc i)"
          show ?thesis
          proof (cases "?j < length e \<and> number_char (e ! ?j)")
            case num: True
            show ?thesis
            proof (cases "scan_number e ?j False")
              case (Inl err)
              with i nsp minus nodbl num sc show ?thesis by (auto simp: unf Let_def)
            next
              case (Inr k)
              have jk: "?j < k" using scan_number_gt [OF Inr] num by simp
              have ij: "i < k" using skip_spaces_ge [of "Suc i" e] jk by simp
              have kl: "k \<le> length e" using scan_number_le [OF Inr] num by simp
              have "number_char (e ! (k - 1))"
                using last_slice_char [of number_char e ?j k] num jk kl
                  scan_number_chars [OF Inr] by simp
              then have inv: "lookback_inv e k (tokens @ [slice e i k])"
                using lookback_inv_emit [of i k e tokens] ij kl number_char_not_sign by blast
              from "1.IH"(3) [OF i refl nsp minus nodbl refl num Inr inv] i nsp minus nodbl num sc Inr
              show ?thesis by (auto simp: unf Let_def)
            qed
          next
            case False
            with "1.IH"(4) [OF i refl nsp minus nodbl refl False inv1] i nsp minus nodbl sc
            show ?thesis by (auto simp: unf Let_def)
          qed
        qed
      next
        case nominus: False
        show ?thesis
        proof (cases "py_isdigit (e ! i) \<or> (e ! i = CHR ''.'' \<and> Suc i < length e \<and> py_isdigit (e ! Suc i))")
          case num: True
          show ?thesis
          proof (cases "scan_number e i False")
            case (Inl err)
            with i nsp nominus num sc show ?thesis by (auto simp: unf Let_def)
          next
            case (Inr k)
            have ik: "i < k" using scan_number_gt [OF Inr] num i by auto
            have kl: "k \<le> length e" using scan_number_le [OF Inr] i by simp
            have "number_char (e ! (k - 1))"
              using last_slice_char [of number_char e i k] num ik kl
                scan_number_chars [OF Inr] by auto
            then have inv: "lookback_inv e k (tokens @ [slice e i k])"
              using lookback_inv_emit [of i k e tokens] ik kl number_char_not_sign by blast
            from "1.IH"(5) [OF i refl nsp nominus num Inr inv] i nsp nominus num sc Inr
            show ?thesis by (auto simp: unf Let_def)
          qed
        next
          case nonum: False
          show ?thesis
          proof (cases "py_isalpha (e ! i) \<or> e ! i = CHR ''_''")
            case id: True
            let ?k = "scan_ident e i"
            have ik: "i < ?k" using scan_ident_gt [OF i] id py_isalpha_isalnum by blast
            have kl: "?k \<le> length e" using scan_ident_le [of i e] i by simp
            have "ident_char (e ! (?k - 1))"
              using last_slice_char [of ident_char e i ?k] id ik kl scan_ident_chars [of e i]
                py_isalpha_isalnum by blast
            then have "\<not> sign_char (e ! (?k - 1))"
              using bracket_char_not_lexical
              by (auto simp: valid_operators_def opening_brackets_def py_char_defs)
            then have inv: "lookback_inv e ?k (tokens @ [slice e i ?k])"
              using lookback_inv_emit [of i ?k e tokens] ik kl by blast
            have c: "e ! i \<noteq> CHR ''-''" "e ! i \<noteq> CHR ''.''" "\<not> py_isdigit (e ! i)"
              using id nonum by (auto simp: py_char_defs)
            from "1.IH"(6) [OF i refl nsp nominus nonum id refl inv] i nsp c id
            show ?thesis by (simp add: unf Let_def)
          next
            case noid: False
            have single: "[e ! i] = slice e i (Suc i)" using i slice_Suc_single [of i e] by simp
            have inv1: "lookback_inv e (Suc i) (tokens @ [[e ! i]])"
              using lookback_inv_emit [of i "Suc i" e tokens] i single by simp
            from "1.IH"(7) [OF i refl nsp nominus nonum noid _ inv1] i nsp nominus nonum noid sc
            show ?thesis by (cases "[e ! i] \<in> valid_operators \<or> [e ! i] \<in> opening_brackets \<or>
                [e ! i] \<in> closing_brackets") (auto simp: unf Let_def)
          qed
        qed
      qed
    qed
  qed
qed

text \<open>
  C10: the tokenizer refines the specification's tokenizer: on every input it returns the
  same tokens or the same error, so the raw-character lookback of lines 45--46 never
  changes the result.
\<close>

theorem tokenize_eq_spec: "tokenize e = tokenize_spec e"
  using tokenize_loop_spec_eq [OF lookback_inv_start]
  by (simp add: tokenize_def tokenize_spec_def)

end
