(* ===== verification/Walk.thy ===== *)
theory Walk
  imports Validator "HOL-Library.While_Combinator"
begin

section \<open>The walk of check\_syntax as a while loop\<close>

text \<open>
  Lines 148--221 keep their loop shape here: a state record with the loop's variables
  (\<^verbatim>\<open>i\<close>, \<^verbatim>\<open>prev_token_type\<close>, \<^verbatim>\<open>self.stack\<close>) and the early return, if one
  was taken, and \<^verbatim>\<open>while_option\<close> running the body while \<^verbatim>\<open>i < len(tokens)\<close> and no
  return has happened. \<open>walk_terminates\<close> says the loop stops on every token list;
  \<open>walk_eq_validate_loop\<close> that it computes what the recursive \<open>validate_loop\<close> of
  the theory \<open>Validator\<close> computes, so every property proved of one holds of the other.
\<close>

record walk_state =
  w_i :: nat
  w_prev :: "token_type option"
  w_stack :: "token list"
  w_err :: "syntax_error option"

text \<open>Lines 148--150: \<^verbatim>\<open>self.stack = []\<close>, \<^verbatim>\<open>prev_token_type = None\<close>, \<^verbatim>\<open>i = 0\<close>.\<close>

definition walk_init :: walk_state where
  "walk_init = \<lparr>w_i = 0, w_prev = None, w_stack = [], w_err = None\<rparr>"

definition walk_guard :: "token list \<Rightarrow> walk_state \<Rightarrow> bool" where
  "walk_guard tokens s \<longleftrightarrow> w_i s < length tokens \<and> w_err s = None"

text \<open>Lines 152--221: one pass of the body; a \<^verbatim>\<open>return False\<close> sets \<open>w_err\<close>.\<close>

definition walk_body :: "token list \<Rightarrow> walk_state \<Rightarrow> walk_state" where
  "walk_body tokens s =
     (let i = w_i s; token = tokens ! i in
      case token_type_of token of
        None \<Rightarrow> s\<lparr>w_err := Some (Unrecognized_token token i)\<rparr>
      | Some tt \<Rightarrow>
          if i = 0 \<and> tt = Operator \<and> token \<noteq> ''-'' then s\<lparr>w_err := Some (Loop_start_operator token)\<rparr>
          else if w_prev s = Some Function \<and> tt \<noteq> Open_bracket then
            s\<lparr>w_err := Some (Function_without_bracket (tokens ! (i - 1)))\<rparr>
          else
            (case adjacency_error tokens i (w_prev s) tt of
               Some err \<Rightarrow> s\<lparr>w_err := Some err\<rparr>
             | None \<Rightarrow>
                 (case bracket_step (w_stack s) token tt i of
                    (Some err, st') \<Rightarrow> s\<lparr>w_stack := st', w_err := Some err\<rparr>
                  | (None, st') \<Rightarrow> s\<lparr>w_i := Suc i, w_prev := Some tt, w_stack := st'\<rparr>)))"

definition walk :: "token list \<Rightarrow> walk_state option" where
  "walk tokens = while_option (walk_guard tokens) (walk_body tokens) walk_init"

lemma walk_body_progress:
  assumes "walk_guard tokens s"
  shows "length tokens - w_i (walk_body tokens s) + (if w_err (walk_body tokens s) = None then 1 else 0)
         < length tokens - w_i s + (if w_err s = None then 1 else 0)"
  using assms
  by (auto simp: walk_guard_def walk_body_def Let_def split: option.splits if_splits prod.splits)

text \<open>
  C16: the loop of lines 151--221 stops on every token list: each pass either advances
  \<^verbatim>\<open>i\<close> or returns, so \<^verbatim>\<open>while_option\<close> yields a final state.
\<close>

theorem walk_terminates: "\<exists>s. walk tokens = Some s"
  unfolding walk_def
  by (rule measure_while_option_Some [where P = "\<lambda>_. True"
        and f = "\<lambda>s. length tokens - w_i s + (if w_err s = None then 1 else 0)"])
    (simp_all add: walk_body_progress)

lemma walk_stop: "\<not> walk_guard tokens s \<Longrightarrow> while_option (walk_guard tokens) c s = Some s"
  by (subst while_option_unfold) simp

lemma walk_stop_err [simp]:
  "w_err s \<noteq> None \<Longrightarrow> while_option (walk_guard tokens) c s = Some s"
  by (rule walk_stop) (simp add: walk_guard_def)

lemma walk_body_cases:
  assumes "i < length tokens"
  shows "(\<exists>tt st''. token_type_of (tokens ! i) = Some tt \<and>
            \<not> (i = 0 \<and> tt = Operator \<and> tokens ! i \<noteq> ''-'') \<and>
            \<not> (prev = Some Function \<and> tt \<noteq> Open_bracket) \<and>
            adjacency_error tokens i prev tt = None \<and>
            bracket_step st (tokens ! i) tt i = (None, st'') \<and>
            walk_body tokens \<lparr>w_i = i, w_prev = prev, w_stack = st, w_err = None\<rparr> = \<lparr>w_i = Suc i, w_prev = Some tt, w_stack = st'', w_err = None\<rparr>) \<or>
         (w_err (walk_body tokens \<lparr>w_i = i, w_prev = prev, w_stack = st, w_err = None\<rparr>) \<noteq> None \<and>
          (w_err (walk_body tokens \<lparr>w_i = i, w_prev = prev, w_stack = st, w_err = None\<rparr>), w_stack (walk_body tokens \<lparr>w_i = i, w_prev = prev, w_stack = st, w_err = None\<rparr>)) = validate_loop tokens i prev st)"
  using assms
  by (subst validate_loop.simps) (auto simp: walk_body_def Let_def split: option.splits prod.splits)

lemma walk_from:
  "map_option (\<lambda>r. (w_err r, w_stack r))
     (while_option (walk_guard tokens) (walk_body tokens)
        \<lparr>w_i = i, w_prev = prev, w_stack = st, w_err = None\<rparr>) =
   Some (validate_loop tokens i prev st)"
proof (induction tokens i prev st rule: validate_loop.induct)
  case (1 tokens i prev st)
  let ?s = "\<lparr>w_i = i, w_prev = prev, w_stack = st, w_err = None\<rparr>"
  show ?case
  proof (cases "i < length tokens")
    case False
    then have "while_option (walk_guard tokens) (walk_body tokens) ?s = Some ?s"
      by (intro walk_stop) (simp add: walk_guard_def)
    with False show ?thesis by (simp add: validate_loop_end)
  next
    case True
    then have unf: "while_option (walk_guard tokens) (walk_body tokens) ?s =
                    while_option (walk_guard tokens) (walk_body tokens) (walk_body tokens ?s)"
      by (subst while_option_unfold) (simp add: walk_guard_def)
    from walk_body_cases [OF True, of prev st] show ?thesis
    proof (elim disjE exE conjE)
      fix tt st''
      assume tt: "token_type_of (tokens ! i) = Some tt"
        and g1: "\<not> (i = 0 \<and> tt = Operator \<and> tokens ! i \<noteq> ''-'')"
        and g2: "\<not> (prev = Some Function \<and> tt \<noteq> Open_bracket)"
        and adj: "adjacency_error tokens i prev tt = None"
        and br: "bracket_step st (tokens ! i) tt i = (None, st'')"
        and b: "walk_body tokens ?s = \<lparr>w_i = Suc i, w_prev = Some tt, w_stack = st'', w_err = None\<rparr>"
      from "1.IH" [OF True refl tt g1 g2 adj br [symmetric] refl] unf b
        validate_loop_None_stepI [OF True tt g1 g2 adj br]
      show ?thesis by simp
    next
      assume "w_err (walk_body tokens ?s) \<noteq> None"
        and "(w_err (walk_body tokens ?s), w_stack (walk_body tokens ?s)) = validate_loop tokens i prev st"
      with unf show ?thesis by simp
    qed
  qed
qed

text \<open>
  The loop computes what the recursive \<open>validate_loop\<close> computes: the same early
  return, if any, and the same final bracket stack.
\<close>

lemma walk_eq_validate_loop:
  "map_option (\<lambda>s. (w_err s, w_stack s)) (walk tokens) = Some (validate_loop tokens 0 None [])"
  using walk_from [of tokens 0 None "[]"] by (simp add: walk_def walk_init_def)

end
