(* ===== verification/Number_Literals.thy ===== *)
theory Number_Literals
  imports Tokenizer
begin

section \<open>Number tokens: \<^verbatim>\<open>float()\<close> against the grammar of the specification\<close>

text \<open>
  The specification (section 3) defines a number as digits with at most one decimal point,
  optionally after a single \<^verbatim>\<open>-\<close> (\<open>spec_number_literal\<close>, with
  \<open>dec_literal\<close> for the unsigned part), and asks (section 8) for number recognition as
  that grammar rather than a conversion. The code classifies a token as a number when
  \<^verbatim>\<open>float(token)\<close> succeeds (line 15, \<open>is_number\<close>). On the number tokens the
  tokenizer emits (\<open>Tokenizer.number_lexeme\<close>) the two agree exactly where the
  grammar holds: \<open>number_lexeme_float_iff\<close>. A number token that \<^verbatim>\<open>float\<close>
  rejects (a blank after the sign, a superscript digit, a lone point after a sign) is
  therefore one the grammar rejects too, and it becomes an unrecognized token.
\<close>

definition dec_literal :: "string \<Rightarrow> bool" where
  "dec_literal r \<longleftrightarrow>
     list_all (\<lambda>c. py_isdecimal c \<or> c = CHR ''.'') r \<and> count_list r (CHR ''.'') \<le> 1 \<and>
     list_ex py_isdecimal r"

definition spec_number_literal :: "token \<Rightarrow> bool" where
  "spec_number_literal t =
     (case t of
        [] \<Rightarrow> False
      | c # r \<Rightarrow> if c = CHR ''-'' then dec_literal r else dec_literal t)"

lemma number_string_float:
  assumes ne: "s \<noteq> []" and h: "\<not> py_isalpha (hd s)"
    and chars: "list_all (\<lambda>x. number_char x \<or> py_isspace x) s"
    and p: "count_list s (CHR ''.'') \<le> 1"
  shows "is_abs_float s \<longleftrightarrow> dec_literal s"
proof -
  have bad: "\<not> (number_char x \<or> py_isspace x)" if "x \<in> {CHR ''_'', CHR ''e'', CHR ''E''}" for x
    using that by (auto simp: py_char_defs)
  have u: "CHR ''_'' \<notin> set s" and e: "CHR ''e'' \<notin> set s" "CHR ''E'' \<notin> set s"
    using chars bad by (auto simp: list_all_iff)
  show ?thesis
    using is_abs_float_nonalpha [OF ne h] is_floatnumber_no_exponent [OF e]
      is_float_number_part_iff [OF u p] p
    by (simp add: dec_literal_def)
qed

lemma number_or_space_not_alpha: "number_char x \<or> py_isspace x \<Longrightarrow> \<not> py_isalpha x"
  by (auto simp: py_char_defs Let_def)

lemma number_char_not_space: "number_char x \<Longrightarrow> \<not> py_isspace x"
  by (auto simp: py_char_defs Let_def)

lemma is_number_stripped:
  "py_strip t = t \<Longrightarrow> t = c # r \<Longrightarrow>
   is_number t = (if c = CHR ''+'' \<or> c = CHR ''-'' then is_abs_float r else is_abs_float t)"
  by (simp add: is_number_def py_float_ok_def)

lemma number_lexeme_float_form:
  assumes "number_lexeme t"
  obtains s where "s \<noteq> []" "\<not> py_isalpha (hd s)" "list_all (\<lambda>x. number_char x \<or> py_isspace x) s"
    "count_list s (CHR ''.'') \<le> 1" "is_number t = is_abs_float s" "spec_number_literal t = dec_literal s"
proof -
  obtain c r where t: "t = c # r" using assms by (cases t) auto
  show ?thesis
  proof (cases "c = CHR ''-''")
    case True
    let ?q = "dropWhile py_isspace r"
    have q: "?q \<noteq> []" "list_all number_char ?q" "count_list ?q (CHR ''.'') \<le> 1"
      using assms t True by (simp_all add: number_run_def)
    have r: "r = takeWhile py_isspace r @ ?q" by simp
    have sp: "list_all py_isspace (takeWhile py_isspace r)"
      by (simp add: list_all_iff) (meson set_takeWhileD)
    have nodot: "count_list (takeWhile py_isspace r) (CHR ''.'') = 0"
      using sp by (auto simp: count_list_0_iff list_all_iff py_char_defs)
    have chars: "list_all (\<lambda>x. number_char x \<or> py_isspace x) r"
      using sp q(2) r by (metis (no_types, lifting) list.pred_mono_strong list_all_append)
    have rne: "r \<noteq> []" using q(1) by auto
    have cnt: "count_list r (CHR ''.'') \<le> 1" using q(3) nodot r by (metis add_0 count_list_append)
    have hd: "\<not> py_isalpha (hd r)"
      using chars rne number_or_space_not_alpha by (cases r) auto
    have "last r = last ?q" using q(1) r by (metis last_appendR)
    then have "\<not> py_isspace (last t)"
      using q(1,2) t rne number_char_not_space by (simp add: list_all_iff)
    then have strip: "py_strip t = t"
      using True t by (intro py_strip_nonspace_ends) (simp_all add: py_char_defs)
    show ?thesis
      using that [OF rne hd chars cnt] is_number_stripped [OF strip t] True t
      by (simp add: spec_number_literal_def)
  next
    case False
    have run: "t \<noteq> []" "list_all number_char t" "count_list t (CHR ''.'') \<le> 1"
      using assms t False by (simp_all add: number_run_def)
    have chars: "list_all (\<lambda>x. number_char x \<or> py_isspace x) t"
      using run(2) by (auto simp: list_all_iff)
    have hd: "\<not> py_isalpha (hd t)" using run(2) t number_or_space_not_alpha [of c] by simp
    have "\<not> py_isspace (hd t)" "\<not> py_isspace (last t)"
      using run(1,2) t number_char_not_space by (simp_all add: list_all_iff)
    then have strip: "py_strip t = t" using run(1) by (rule py_strip_nonspace_ends [rotated])
    have "c \<noteq> CHR ''+''" using run(2) t by (auto simp: py_char_defs)
    with False show ?thesis
      using that [OF run(1) hd chars run(3)] is_number_stripped [OF strip t] t
      by (simp add: spec_number_literal_def)
  qed
qed

lemma number_lexeme_is_number: "number_lexeme t \<Longrightarrow> is_number t = spec_number_literal t"
proof -
  assume "number_lexeme t"
  then obtain s where "s \<noteq> []" "\<not> py_isalpha (hd s)" "list_all (\<lambda>x. number_char x \<or> py_isspace x) s"
    "count_list s (CHR ''.'') \<le> 1" and n: "is_number t = is_abs_float s"
    and sp: "spec_number_literal t = dec_literal s"
    by (rule number_lexeme_float_form)
  from number_string_float [OF this(1-4)] n sp show ?thesis by simp
qed

text \<open>
  C17: on every number token of the tokenizer, \<^verbatim>\<open>is_number\<close> (that is,
  \<^verbatim>\<open>float\<close> succeeding) holds exactly when the token is a number of the
  specification's grammar: an optional minus directly followed by ASCII digits with at most
  one point and at least one digit.
\<close>

theorem number_lexeme_float_iff:
  assumes "number_lexeme t"
  shows "is_number t \<longleftrightarrow> spec_number_literal t"
  using number_lexeme_is_number [OF assms] by simp

theorem number_lexeme_float_iff_witness:
  "number_lexeme ''- 3'' \<and> \<not> is_number ''- 3'' \<and>
   number_lexeme [CHR 0xB2] \<and> \<not> is_number [CHR 0xB2] \<and>
   number_lexeme ''-2.5'' \<and> is_number ''-2.5''"
proof -
  have n1: "number_lexeme ''- 3''" by code_simp
  have n2: "number_lexeme [CHR 0xB2]" by code_simp
  have n3: "number_lexeme ''-2.5''" by code_simp
  have s1: "\<not> spec_number_literal ''- 3''" by code_simp
  have s2: "\<not> spec_number_literal [CHR 0xB2]" by code_simp
  have s3: "spec_number_literal ''-2.5''" by code_simp
  from number_lexeme_float_iff [OF n1] number_lexeme_float_iff [OF n2] number_lexeme_float_iff [OF n3]
    n1 n2 n3 s1 s2 s3
  show ?thesis by simp
qed

lemma ident_lexeme_classified:
  "ident_lexeme t \<Longrightarrow> \<not> is_function t \<Longrightarrow> is_variable t"
  by (cases t) (auto simp: is_function_def)

lemma number_lexeme_head:
  assumes "number_lexeme t"
  obtains c r where "t = c # r" "c = CHR ''-'' \<and> r \<noteq> [] \<or> number_char c"
proof -
  obtain c r where t: "t = c # r" using assms by (cases t) auto
  have "c = CHR ''-'' \<and> r \<noteq> [] \<or> number_char c"
  proof (cases "c = CHR ''-''")
    case True
    with assms t have "dropWhile py_isspace r \<noteq> []" by (simp add: number_run_def)
    with True show ?thesis by auto
  next
    case False
    with assms t show ?thesis by (auto simp: number_run_def)
  qed
  with t that show ?thesis by blast
qed

lemma number_start_not_ident: "c = CHR ''-'' \<or> number_char c \<Longrightarrow> \<not> py_isalpha c \<and> c \<noteq> CHR ''_''"
proof -
  assume "c = CHR ''-'' \<or> number_char c"
  moreover have "\<not> py_isalpha (CHR ''-'')" by (simp add: py_char_defs)
  moreover have "\<not> py_isdigit (CHR ''_'')" by (simp add: py_char_defs)
  ultimately show ?thesis using number_or_space_not_alpha [of c] by auto
qed

lemma number_lexeme_not_name:
  assumes "number_lexeme t"
  shows "\<not> is_function t \<and> \<not> is_variable t \<and>
         t \<notin> valid_operators \<and> t \<notin> opening_brackets \<and> t \<notin> closing_brackets"
proof -
  from assms obtain c r where t: "t = c # r" and c: "c = CHR ''-'' \<and> r \<noteq> [] \<or> number_char c"
    by (rule number_lexeme_head)
  have ni: "\<not> py_isalpha c \<and> c \<noteq> CHR ''_''" using c number_start_not_ident by blast
  have nf: "\<not> is_function t"
  proof
    assume "is_function t"
    then have "py_isalpha c" using t by (auto simp: is_function_def valid_functions_def py_char_defs)
    with ni show False by simp
  qed
  have nv: "\<not> is_variable t" using ni t by simp
  have nd: "\<not> number_char x" if "x \<in> {CHR ''+'', CHR ''-'', CHR ''*'', CHR ''/'', CHR ''^'',
      CHR ''('', CHR ''['', CHR ''{'', CHR '')'', CHR '']'', CHR ''}''}" for x
    using that by (auto simp: py_char_defs)
  have "t \<notin> valid_operators \<and> t \<notin> opening_brackets \<and> t \<notin> closing_brackets"
    using c t nd by (auto simp: valid_operators_def opening_brackets_def closing_brackets_def)
  with nf nv show ?thesis by blast
qed

lemma symbol_not_number_lexeme:
  "t \<in> valid_operators \<or> t \<in> opening_brackets \<or> t \<in> closing_brackets \<Longrightarrow> \<not> number_lexeme t"
  using number_lexeme_not_name by blast

lemma ident_not_number_lexeme: "ident_lexeme t \<Longrightarrow> \<not> number_lexeme t"
proof
  assume i: "ident_lexeme t" and n: "number_lexeme t"
  from n obtain c r where t: "t = c # r" and c: "c = CHR ''-'' \<and> r \<noteq> [] \<or> number_char c"
    by (rule number_lexeme_head)
  have "\<not> py_isalpha c \<and> c \<noteq> CHR ''_''" using c number_start_not_ident by blast
  with i t show False by simp
qed

text \<open>
  C18: a token of the tokenizer is unrecognized by \<^verbatim>\<open>check_syntax\<close> (no category,
  line 166) exactly when it is a number token outside the specification's number grammar;
  operators, brackets and identifiers always get a category.
\<close>

theorem unrecognized_lexeme_iff:
  assumes "lexeme t"
  shows "token_type_of t = None \<longleftrightarrow> number_lexeme t \<and> \<not> spec_number_literal t"
proof -
  consider (sym) "t \<in> valid_operators \<or> t \<in> opening_brackets \<or> t \<in> closing_brackets"
    | (num) "number_lexeme t" | (ident) "ident_lexeme t"
    using assms by (auto simp: lexeme_def)
  then show ?thesis
  proof cases
    case sym
    then have "token_type_of t \<noteq> None"
      using token_type_of_Operator_iff token_type_of_Open_iff token_type_of_Close_iff by blast
    with symbol_not_number_lexeme [OF sym] show ?thesis by simp
  next
    case num
    from number_lexeme_is_number [OF num] num number_lexeme_not_name [OF num] show ?thesis by (simp add: token_type_of_def)
  next
    case ident
    then have "token_type_of t \<noteq> None"
      using ident_lexeme_classified [OF ident] by (auto simp: token_type_of_def)
    with ident_not_number_lexeme [OF ident] show ?thesis by simp
  qed
qed

theorem unrecognized_lexeme_iff_witness:
  "lexeme ''-.'' \<and> token_type_of ''-.'' = None \<and> lexeme ''x2'' \<and> token_type_of ''x2'' \<noteq> None"
proof -
  have l1: "lexeme ''-.''" by code_simp
  have l2: "lexeme ''x2''" by code_simp
  have n1: "number_lexeme ''-.'' \<and> \<not> spec_number_literal ''-.''" by code_simp
  have n2: "\<not> number_lexeme ''x2''" by code_simp
  from unrecognized_lexeme_iff [OF l1] unrecognized_lexeme_iff [OF l2] l1 l2 n1 n2
  show ?thesis by blast
qed

end
