(* ===== verification/Acceptance.thy ===== *)
theory Acceptance
  imports Validator
begin

section \<open>The verdict as a declarative acceptance condition\<close>

text \<open>
  Section 4.3 of the specification ends with a state machine: the states are the six token
  categories and a start state, the transitions are the adjacency rules, and a token list
  is accepted when the end is reached with an empty bracket stack and the last token is not
  an operator. \<open>accepts\<close> states that machine declaratively over the whole token list:
  every token has a category, the first token is not an operator other than
  \<^verbatim>\<open>-\<close>, a first \<^verbatim>\<open>-\<close> is followed by an operand, every pair of neighbours
  satisfies \<open>transition_ok\<close> (the rules of steps 2 and 3, with \<open>follows_operand\<close>
  for the rules on the previous category), the last token is not an operator, and the
  brackets are nested (\<open>Brackets.nested\<close>). The walk of \<^verbatim>\<open>check_syntax\<close> with
  its early returns and its stack decides exactly this (\<open>check_syntax_valid_iff_accepts\<close>):
  \<open>validate_loop_iff\<close> turns a run without error into a check at every index plus the
  stack discipline, \<open>walk_ok_all_iff\<close> turns the checks at every index into
  conditions on neighbouring categories.
\<close>

definition walk_ok :: "token list \<Rightarrow> nat \<Rightarrow> bool" where
  "walk_ok tokens k \<longleftrightarrow>
     (case token_type_of (tokens ! k) of
        None \<Rightarrow> False
      | Some tt \<Rightarrow>
          \<not> (k = 0 \<and> tt = Operator \<and> tokens ! k \<noteq> ''-'') \<and>
          \<not> (prev_type tokens k = Some Function \<and> tt \<noteq> Open_bracket) \<and>
          adjacency_error tokens k (prev_type tokens k) tt = None)"

lemma bracket_step_match_run_None:
  assumes "token_type_of t = Some tt" and "match_run st (t # r) = Some st'"
  obtains st'' where "bracket_step st t tt i = (None, st'')" and "match_run st'' r = Some st'"
proof -
  have no: "t \<notin> opening_brackets" if "tt \<noteq> Open_bracket"
    using assms(1) that token_type_of_Open_iff [of t] by auto
  have nc: "t \<notin> closing_brackets" if "tt \<noteq> Close_bracket"
    using assms(1) that token_type_of_Close_iff [of t] by auto
  have "\<exists>st''. bracket_step st t tt i = (None, st'') \<and> match_run st'' r = Some st'"
  proof (cases "tt = Open_bracket")
    case True
    with assms show ?thesis by (simp add: bracket_step_def token_type_of_Open_iff)
  next
    case notopen: False
    show ?thesis
    proof (cases "tt = Close_bracket")
      case True
      with assms(1) have "t \<in> closing_brackets" by (simp add: token_type_of_Close_iff)
      with True notopen no assms(2) show ?thesis
        by (auto simp: bracket_step_def Let_def split: if_splits)
    next
      case False
      with notopen no nc assms(2) show ?thesis by (simp add: bracket_step_def)
    qed
  qed
  with that show ?thesis by blast
qed

lemma validate_loop_iff:
  "validate_loop tokens i (prev_type tokens i) st = (None, st') \<longleftrightarrow>
   (\<forall>k. i \<le> k \<and> k < length tokens \<longrightarrow> walk_ok tokens k) \<and>
   match_run st (drop i tokens) = Some st'"
proof (induction "length tokens - i" arbitrary: i st)
  case 0
  then show ?case by (auto simp: validate_loop_end)
next
  case (Suc n)
  then have i: "i < length tokens" by simp
  have pt: "prev_type tokens (Suc i) = token_type_of (tokens ! i)" by (simp add: prev_type_def)
  have drop: "drop i tokens = tokens ! i # drop (Suc i) tokens" using i by (rule drop_nth_Cons)
  have range: "(\<forall>k. i \<le> k \<and> k < length tokens \<longrightarrow> walk_ok tokens k) \<longleftrightarrow>
        walk_ok tokens i \<and> (\<forall>k. Suc i \<le> k \<and> k < length tokens \<longrightarrow> walk_ok tokens k)"
  proof
    assume "\<forall>k. i \<le> k \<and> k < length tokens \<longrightarrow> walk_ok tokens k"
    with i show "walk_ok tokens i \<and> (\<forall>k. Suc i \<le> k \<and> k < length tokens \<longrightarrow> walk_ok tokens k)"
      by simp
  next
    assume "walk_ok tokens i \<and> (\<forall>k. Suc i \<le> k \<and> k < length tokens \<longrightarrow> walk_ok tokens k)"
    then show "\<forall>k. i \<le> k \<and> k < length tokens \<longrightarrow> walk_ok tokens k"
      by (metis Suc_leI le_neq_implies_less)
  qed
  show ?case
  proof
    assume run: "validate_loop tokens i (prev_type tokens i) st = (None, st')"
    from validate_loop_None_step [OF i run] obtain tt st'' where
      tt: "token_type_of (tokens ! i) = Some tt"
      and g1: "\<not> (i = 0 \<and> tt = Operator \<and> tokens ! i \<noteq> ''-'')"
      and g2: "\<not> (prev_type tokens i = Some Function \<and> tt \<noteq> Open_bracket)"
      and adj: "adjacency_error tokens i (prev_type tokens i) tt = None"
      and br: "bracket_step st (tokens ! i) tt i = (None, st'')"
      and rest: "validate_loop tokens (Suc i) (Some tt) st'' = (None, st')" .
    have "length tokens - Suc i = n" using Suc.hyps(2) by simp
    from Suc.hyps(1) [OF this [symmetric]] rest pt tt
    have "(\<forall>k. Suc i \<le> k \<and> k < length tokens \<longrightarrow> walk_ok tokens k) \<and>
          match_run st'' (drop (Suc i) tokens) = Some st'" by simp
    moreover have "walk_ok tokens i" using tt g1 g2 adj by (simp add: walk_ok_def)
    moreover have "match_run st (drop i tokens) = match_run st'' (drop (Suc i) tokens)"
      using bracket_step_match_run [OF tt br] drop by simp
    ultimately show "(\<forall>k. i \<le> k \<and> k < length tokens \<longrightarrow> walk_ok tokens k) \<and>
                     match_run st (drop i tokens) = Some st'" using range by simp
  next
    assume r: "(\<forall>k. i \<le> k \<and> k < length tokens \<longrightarrow> walk_ok tokens k) \<and>
               match_run st (drop i tokens) = Some st'"
    then have ok: "walk_ok tokens i" and oks: "\<forall>k. Suc i \<le> k \<and> k < length tokens \<longrightarrow> walk_ok tokens k"
      using range by simp_all
    from ok obtain tt where tt: "token_type_of (tokens ! i) = Some tt"
      by (auto simp: walk_ok_def split: option.splits)
    with ok have g1: "\<not> (i = 0 \<and> tt = Operator \<and> tokens ! i \<noteq> ''-'')"
      and g2: "\<not> (prev_type tokens i = Some Function \<and> tt \<noteq> Open_bracket)"
      and adj: "adjacency_error tokens i (prev_type tokens i) tt = None"
      by (simp_all add: walk_ok_def)
    from r drop have "match_run st (tokens ! i # drop (Suc i) tokens) = Some st'" by simp
    from bracket_step_match_run_None [OF tt this] obtain st'' where
      br: "bracket_step st (tokens ! i) tt i = (None, st'')"
      and mr: "match_run st'' (drop (Suc i) tokens) = Some st'" .
    have "length tokens - Suc i = n" using Suc.hyps(2) by simp
    from Suc.hyps(1) [OF this [symmetric]] oks mr pt tt
    have "validate_loop tokens (Suc i) (Some tt) st'' = (None, st')" by simp
    with validate_loop_None_stepI [OF i tt g1 g2 adj br] show
      "validate_loop tokens i (prev_type tokens i) st = (None, st')" by simp
  qed
qed

definition follows_operand :: "token_type \<Rightarrow> token_type \<Rightarrow> bool" where
  "follows_operand p c \<longleftrightarrow>
     (p \<in> {Number, Variable} \<longrightarrow> c \<in> {Operator, Close_bracket, Open_bracket, Function, Variable}) \<and>
     (p = Open_bracket \<longrightarrow> c \<in> {Number, Variable, Function, Open_bracket, Operator}) \<and>
     (p = Close_bracket \<longrightarrow> c \<in> {Operator, Close_bracket, Open_bracket, Function, Variable})"

definition transition_ok :: "token_type \<Rightarrow> token_type \<Rightarrow> bool \<Rightarrow> bool" where
  "transition_ok p c next_is_minus \<longleftrightarrow>
     (p = Function \<longrightarrow> c = Open_bracket) \<and>
     (p = Operator \<longrightarrow> c \<in> {Number, Variable, Function, Open_bracket} \<or> next_is_minus) \<and>
     (c \<noteq> Operator \<longrightarrow> follows_operand p c)"

lemma operand_token_iff:
  "(is_number n \<or> is_variable n \<or> is_function n \<or> n \<in> opening_brackets) \<longleftrightarrow>
   token_type_of n \<in> {Some Number, Some Variable, Some Function, Some Open_bracket}"
proof (cases "n \<in> opening_brackets")
  case True
  then have "\<not> is_number n" "\<not> is_variable n" "\<not> is_function n"
    using symbol_not_number [of n] symbol_not_function [of n] symbol_not_variable [of n] by auto
  moreover have "n \<notin> valid_operators"
    using True by (auto simp: opening_brackets_def valid_operators_def)
  ultimately show ?thesis using True by (simp add: token_type_of_def)
next
  case False
  then show ?thesis by (simp add: token_type_of_def)
qed

lemma adjacency_error_None_iff:
  assumes k: "k < length tokens" and tt: "token_type_of (tokens ! k) = Some t"
  shows "adjacency_error tokens k p t = None \<longleftrightarrow>
         (t = Operator \<longrightarrow> Suc k < length tokens \<and>
            (token_type_of (tokens ! Suc k) \<in> {Some Number, Some Variable, Some Function, Some Open_bracket} \<or>
             tokens ! Suc k = ''-'')) \<and>
         (t \<noteq> Operator \<longrightarrow> (case p of None \<Rightarrow> True | Some q \<Rightarrow> follows_operand q t))"
proof (cases "t = Operator")
  case True
  have op: "tokens ! k \<in> valid_operators" using tt True token_type_of_Operator_iff by blast
  show ?thesis
  proof (cases "Suc k < length tokens")
    case True
    then have "k \<noteq> length tokens - 1" by arith
    with True \<open>t = Operator\<close> op operand_token_iff [of "tokens ! Suc k"] show ?thesis
      by (simp add: adjacency_error_def Let_def) blast
  next
    case False
    with k have "k = length tokens - 1" by arith
    with False \<open>t = Operator\<close> show ?thesis by (simp add: adjacency_error_def)
  qed
next
  case False
  then show ?thesis
    by (cases p) (simp_all add: adjacency_error_def follows_operand_def)
qed

definition categories_ok :: "token list \<Rightarrow> bool" where
  "categories_ok ts \<longleftrightarrow>
     (\<forall>k<length ts. token_type_of (ts ! k) \<noteq> None) \<and>
     (token_type_of (hd ts) = Some Operator \<longrightarrow> hd ts = ''-'') \<and>
     (\<forall>k. Suc k < length ts \<longrightarrow>
        transition_ok (the (token_type_of (ts ! k))) (the (token_type_of (ts ! Suc k)))
          (ts ! Suc k = ''-'')) \<and>
     token_type_of (last ts) \<noteq> Some Operator"

lemma walk_ok_all_iff:
  assumes ne: "ts \<noteq> []"
  shows "(\<forall>k<length ts. walk_ok ts k) \<longleftrightarrow> categories_ok ts"
proof
  assume A: "\<forall>k<length ts. walk_ok ts k"
  have cl: "\<forall>k<length ts. token_type_of (ts ! k) \<noteq> None"
    using A by (auto simp: walk_ok_def split: option.splits)
  have first: "token_type_of (hd ts) = Some Operator \<longrightarrow> hd ts = ''-''"
    using A ne by (auto simp: walk_ok_def hd_conv_nth)
  have pairs: "transition_ok (the (token_type_of (ts ! k))) (the (token_type_of (ts ! Suc k)))
                 (ts ! Suc k = ''-'')" if sk: "Suc k < length ts" for k
  proof -
    obtain p c where p: "token_type_of (ts ! k) = Some p" and c: "token_type_of (ts ! Suc k) = Some c"
      using cl sk by (metis Suc_lessD not_None_eq)
    have wk: "walk_ok ts k" and wsk: "walk_ok ts (Suc k)" using A sk by simp_all
    have pt: "prev_type ts (Suc k) = Some p" using p by (simp add: prev_type_def)
    from wk p have "adjacency_error ts k (prev_type ts k) p = None" by (simp add: walk_ok_def)
    with adjacency_error_None_iff [OF Suc_lessD [OF sk] p] c
    have "p = Operator \<longrightarrow> c \<in> {Number, Variable, Function, Open_bracket} \<or> ts ! Suc k = ''-''"
      by auto
    moreover from wsk c pt have "p = Function \<longrightarrow> c = Open_bracket"
      and "adjacency_error ts (Suc k) (Some p) c = None" by (auto simp: walk_ok_def)
    moreover from this(2) adjacency_error_None_iff [OF sk c, of "Some p"]
    have "c \<noteq> Operator \<longrightarrow> follows_operand p c" by simp
    ultimately show ?thesis using p c by (simp add: transition_ok_def)
  qed
  have last: "token_type_of (last ts) \<noteq> Some Operator"
  proof
    assume op: "token_type_of (last ts) = Some Operator"
    let ?k = "length ts - 1"
    have k: "?k < length ts" and l: "last ts = ts ! ?k" using ne by (simp_all add: last_conv_nth)
    from A k have "walk_ok ts ?k" by blast
    with op l have adj: "adjacency_error ts ?k (prev_type ts ?k) Operator = None"
      by (simp add: walk_ok_def)
    have sk: "Suc ?k = length ts" using ne by simp
    from adjacency_error_None_iff [OF k op [unfolded l]] adj show False by (simp only: sk) simp
  qed
  from cl first pairs last show "categories_ok ts" by (simp add: categories_ok_def)
next
  assume C: "categories_ok ts"
  show "\<forall>k<length ts. walk_ok ts k"
  proof (intro allI impI)
    fix k assume k: "k < length ts"
    from C k obtain t where t: "token_type_of (ts ! k) = Some t"
      by (auto simp: categories_ok_def)
    have g1: "\<not> (k = 0 \<and> t = Operator \<and> ts ! k \<noteq> ''-'')"
    proof
      assume a: "k = 0 \<and> t = Operator \<and> ts ! k \<noteq> ''-''"
      then have "token_type_of (hd ts) = Some Operator" using t ne by (simp add: hd_conv_nth)
      with C have "hd ts = ''-''" by (simp add: categories_ok_def)
      with a ne show False by (auto simp: hd_conv_nth)
    qed
    have before: "\<exists>p. token_type_of (ts ! (k - 1)) = Some p \<and> transition_ok p t (ts ! k = ''-'')"
      if "0 < k"
    proof -
      from that k have sk: "Suc (k - 1) < length ts" and ksuc: "Suc (k - 1) = k" by simp_all
      have "k - 1 < length ts" using k by simp
      with C have "token_type_of (ts ! (k - 1)) \<noteq> None" by (simp add: categories_ok_def)
      then obtain p where p: "token_type_of (ts ! (k - 1)) = Some p" by blast
      from C sk have "transition_ok (the (token_type_of (ts ! (k - 1))))
                        (the (token_type_of (ts ! Suc (k - 1)))) (ts ! Suc (k - 1) = ''-'')"
        by (simp add: categories_ok_def)
      with p t ksuc show ?thesis by simp
    qed
    have g2: "\<not> (prev_type ts k = Some Function \<and> t \<noteq> Open_bracket)"
      using before by (auto simp: prev_type_def transition_ok_def)
    have op: "Suc k < length ts \<and>
              (token_type_of (ts ! Suc k) \<in> {Some Number, Some Variable, Some Function, Some Open_bracket} \<or>
               ts ! Suc k = ''-'')" if "t = Operator"
    proof -
      have "k \<noteq> length ts - 1"
        using C that t ne by (auto simp: categories_ok_def last_conv_nth)
      with k have sk: "Suc k < length ts" by arith
      from C sk have "token_type_of (ts ! Suc k) \<noteq> None" by (simp add: categories_ok_def)
      then obtain c where c: "token_type_of (ts ! Suc k) = Some c" by blast
      from C sk c t that show ?thesis by (auto simp: categories_ok_def transition_ok_def)
    qed
    have fo: "case prev_type ts k of None \<Rightarrow> True | Some q \<Rightarrow> follows_operand q t" if "t \<noteq> Operator"
      using before that by (cases "k = 0") (auto simp: prev_type_def transition_ok_def)
    have "adjacency_error ts k (prev_type ts k) t = None"
      using op fo by (simp add: adjacency_error_None_iff [OF k t])
    with t g1 g2 show "walk_ok ts k" by (simp add: walk_ok_def)
  qed
qed

definition accepts :: "token list \<Rightarrow> bool" where
  "accepts ts \<longleftrightarrow>
     ts \<noteq> [] \<and>
     (hd ts = ''-'' \<longrightarrow> 2 \<le> length ts \<and>
        token_type_of (ts ! 1) \<in> {Some Number, Some Variable, Some Function, Some Open_bracket}) \<and>
     categories_ok ts \<and>
     nested (filter is_bracket ts)"

lemma unary_next_type_allowed:
  "(case unary_next_type t of None \<Rightarrow> False | Some tt \<Rightarrow> tt \<in> set allowed_after_unary_minus) \<longleftrightarrow>
   token_type_of t \<in> {Some Number, Some Variable, Some Function, Some Open_bracket}"
proof -
  have "t \<in> valid_operators \<Longrightarrow> t \<notin> opening_brackets"
    by (auto simp: valid_operators_def opening_brackets_def)
  then show ?thesis
    by (simp add: unary_next_type_def token_type_of_def allowed_after_unary_minus_def)
qed

lemma tokenize_nonempty_not_blank:
  assumes "tokenize e = Inr ts" and "ts \<noteq> []"
  shows "py_strip e \<noteq> []"
proof
  assume "py_strip e = []"
  then have "filter (\<lambda>c. \<not> py_isspace c) e = []"
    by (simp add: py_strip_empty_iff filter_empty_conv list_all_iff)
  moreover have "filter (\<lambda>c. \<not> py_isspace c) (concat ts) = filter (\<lambda>c. \<not> py_isspace c) e"
    using tokenize_loop_nonblank [of e 0 "[]" ts] assms(1) by (simp add: tokenize_def)
  moreover have "list_all lexeme ts"
    using tokenize_loop_lexemes [of e 0 "[]" ts] assms(1) by (simp add: tokenize_def)
  ultimately have "length ts \<le> 0"
    using lexemes_length_nonblank [of ts] by simp
  with assms(2) show False by simp
qed

lemma check_syntax_valid_iff_walk:
  "fst (fst (check_syntax c e)) \<longleftrightarrow>
   (case tokenize e of
      Inl _ \<Rightarrow> False
    | Inr ts \<Rightarrow> ts \<noteq> [] \<and> \<not> (hd ts \<in> valid_operators \<and> hd ts \<noteq> ''-'') \<and>
        (hd ts = ''-'' \<longrightarrow> 2 \<le> length ts \<and>
           (case unary_next_type (ts ! 1) of None \<Rightarrow> False | Some tt \<Rightarrow> tt \<in> set allowed_after_unary_minus)) \<and>
        validate_loop ts 0 None [] = (None, []))"
proof -
  have v: "fst (fst (check_syntax c e)) \<longleftrightarrow> fst (check_syntax_core c e) = None"
    by (simp add: check_syntax_fst_core split: option.splits)
  show ?thesis
  proof (cases "tokenize e")
    case (Inl err)
    then show ?thesis unfolding v by (simp add: check_syntax_core_def)
  next
    case (Inr ts)
    show ?thesis
    proof (cases "ts = []")
      case True
      with Inr show ?thesis unfolding v by (simp add: check_syntax_core_def)
    next
      case ne: False
      have s: "py_strip e \<noteq> []" by (rule tokenize_nonempty_not_blank [OF Inr ne])
      obtain r st where vl: "validate_loop ts 0 None [] = (r, st)" by fastforce
      have "fst (check_syntax_core c e) = None \<longleftrightarrow>
            \<not> (hd ts \<in> valid_operators \<and> hd ts \<noteq> ''-'') \<and>
            (hd ts = ''-'' \<longrightarrow> 2 \<le> length ts \<and>
               (case unary_next_type (ts ! 1) of None \<Rightarrow> False
                | Some tt \<Rightarrow> tt \<in> set allowed_after_unary_minus)) \<and>
            r = None \<and> st = []"
        using s Inr ne vl
        by (cases r) (auto simp: check_syntax_core_def not_less split: option.splits)
      with Inr ne vl show ?thesis unfolding v by simp
    qed
  qed
qed

lemma check_syntax_valid_tokens_accepts:
  assumes "tokenize e = Inr ts"
  shows "fst (fst (check_syntax c e)) \<longleftrightarrow> accepts ts"
proof (cases "ts = []")
  case True
  with assms show ?thesis by (simp add: check_syntax_valid_iff_walk accepts_def)
next
  case ne: False
  have walk: "validate_loop ts 0 None [] = (None, []) \<longleftrightarrow>
              categories_ok ts \<and> nested (filter is_bracket ts)"
    using validate_loop_iff [of ts 0 "[]" "[]"] walk_ok_all_iff [OF ne] match_run_iff_nested [of ts]
    by (simp add: prev_type_def)
  have first: "(hd ts \<in> valid_operators \<and> hd ts \<noteq> ''-'') \<longleftrightarrow>
               (token_type_of (hd ts) = Some Operator \<and> hd ts \<noteq> ''-'')"
    by (simp add: token_type_of_Operator_iff)
  show ?thesis
    using assms ne walk first unary_next_type_allowed [of "ts ! 1"]
    by (simp add: check_syntax_valid_iff_walk accepts_def categories_ok_def) blast
qed

text \<open>
  C9: \<^verbatim>\<open>check_syntax\<close> reports an expression valid exactly when it tokenizes and its
  token list is accepted by the state machine of the specification: categories, first
  token, unary minus, neighbouring categories, no trailing operator, nested brackets.
\<close>

theorem check_syntax_valid_iff_accepts:
  "fst (fst (check_syntax c e)) \<longleftrightarrow> (case tokenize e of Inl _ \<Rightarrow> False | Inr ts \<Rightarrow> accepts ts)"
proof (cases "tokenize e")
  case (Inl err)
  then show ?thesis by (simp add: check_syntax_valid_iff_walk)
next
  case (Inr ts)
  with check_syntax_valid_tokens_accepts [OF Inr] show ?thesis by simp
qed

theorem check_syntax_valid_iff_accepts_witness:
  "fst (fst (check_syntax init_checker ''2(x)'')) \<and> tokenize ''2(x)'' = Inr [''2'', ''('', ''x'', '')''] \<and>
   accepts [''2'', ''('', ''x'', '')''] \<and>
   \<not> fst (fst (check_syntax init_checker ''(2 + 3'')) \<and>
   tokenize ''(2 + 3'' = Inr [''('', ''2'', ''+'', ''3''] \<and> \<not> accepts [''('', ''2'', ''+'', ''3'']"
proof -
  have v1: "fst (fst (check_syntax init_checker ''2(x)''))" by code_simp
  have t1: "tokenize ''2(x)'' = Inr [''2'', ''('', ''x'', '')'']" by code_simp
  have v2: "\<not> fst (fst (check_syntax init_checker ''(2 + 3''))" by code_simp
  have t2: "tokenize ''(2 + 3'' = Inr [''('', ''2'', ''+'', ''3'']" by code_simp
  from check_syntax_valid_iff_accepts [of init_checker "''2(x)''"]
    check_syntax_valid_iff_accepts [of init_checker "''(2 + 3''"] v1 t1 v2 t2
  show ?thesis by simp
qed

end
