(* ===== verification/Diagnostics.thy ===== *)
theory Diagnostics
  imports Validator
begin

section \<open>What the validator reports: positions, the bracket stack, blank input\<close>

text \<open>
  Properties of the verdicts of \<^verbatim>\<open>check_syntax\<close> (\<^verbatim>\<open>src/app.py\<close> lines 109--227)
  beyond accept/reject: the position a message prints reads back as the position
  the code meant (\<open>show_nat\<close> is the \<^verbatim>\<open>{i}\<close> of the f-strings), every position
  is an index of the token list (or of the input, for a lexical error) and names the
  token there, the bracket stack a checker object keeps between calls holds only
  openers, the openers an \<^verbatim>\<open>Unmatched opening brackets\<close> message lists are exactly
  the ones left open, and blank input is the \<^verbatim>\<open>Empty expression\<close> error. The
  definitions of this theory are reference functions that read the verdict (decimal
  read-back, the position and token a message carries, the closer of an opener) and
  the calls a client makes on one checker object (\<open>checker_reach\<close>).
\<close>

subsection \<open>Reading a verdict\<close>

text \<open>Decimal read-back of a digit string, the inverse of \<open>show_nat\<close>.\<close>

definition digit_value :: "char \<Rightarrow> nat" where
  "digit_value c = of_char c - 48"

definition read_nat :: "string \<Rightarrow> nat" where
  "read_nat s = foldl (\<lambda>n c. 10 * n + digit_value c) 0 s"

text \<open>The position and the token a message carries, by the constructor the code returns.\<close>

fun error_position :: "syntax_error \<Rightarrow> nat option" where
  "error_position (Tokenize_error (Invalid_number_format i)) = Some i"
| "error_position (Tokenize_error (Invalid_character c i)) = Some i"
| "error_position (Unrecognized_token t i) = Some i"
| "error_position (Operand_expected_after_operator k) = Some k"
| "error_position (Expected_after_operand p i) = Some i"
| "error_position (Expected_after_open i) = Some i"
| "error_position (Expected_after_close i) = Some i"
| "error_position (Unmatched_closing t i) = Some i"
| "error_position (Mismatched_pair a t i) = Some i"
| "error_position _ = None"

fun error_token :: "syntax_error \<Rightarrow> token option" where
  "error_token (Unrecognized_token t i) = Some t"
| "error_token (Unmatched_closing t i) = Some t"
| "error_token (Mismatched_pair a t i) = Some t"
| "error_token _ = None"

text \<open>The decimal digits at the end of a message.\<close>

definition trailing_digits :: "string \<Rightarrow> string" where
  "trailing_digits s = rev (takeWhile py_isdecimal (rev s))"

text \<open>The closer \<^verbatim>\<open>bracket_pairs\<close> pairs with an opener.\<close>

definition closer_for :: "token \<Rightarrow> token" where
  "closer_for t = (if t = ''('' then '')'' else if t = ''['' then '']'' else if t = ''{'' then ''}'' else t)"

text \<open>The checker objects a client reaches by successive \<^verbatim>\<open>check_syntax\<close> calls on one object.\<close>

inductive checker_reach :: "checker \<Rightarrow> bool" where
  reach_init: "checker_reach init_checker"
| reach_call: "checker_reach c \<Longrightarrow> checker_reach (snd (check_syntax c e))"

subsection \<open>Decimal positions\<close>

lemma read_nat_snoc: "read_nat (s @ [c]) = 10 * read_nat s + digit_value c"
  by (simp add: read_nat_def)

lemma decimal_digit:
  assumes "d < 10"
  shows "digit_value (''0123456789'' ! d) = d \<and> py_isdecimal (''0123456789'' ! d)"
proof -
  from assms have "d \<in> {0, 1, 2, 3, 4, 5, 6, 7, 8, 9}" by auto
  then show ?thesis by (auto simp: digit_value_def py_isdecimal_def)
qed

lemma show_nat_small: "n < 10 \<Longrightarrow> show_nat n = [''0123456789'' ! n]"
  by (subst show_nat.simps) simp

lemma show_nat_large:
  "\<not> n < 10 \<Longrightarrow> show_nat n = show_nat (n div 10) @ [''0123456789'' ! (n mod 10)]"
  by (subst show_nat.simps) simp

lemma show_nat_read: "read_nat (show_nat n) = n"
proof (induction n rule: show_nat.induct)
  case (1 n)
  show ?case
  proof (cases "n < 10")
    case True
    then show ?thesis by (simp add: show_nat_small read_nat_def decimal_digit del: show_nat.simps)
  next
    case False
    with "1.IH" show ?thesis
      by (simp add: show_nat_large read_nat_snoc decimal_digit del: show_nat.simps)
  qed
qed

lemma show_nat_decimal: "list_all py_isdecimal (show_nat n)"
proof (induction n rule: show_nat.induct)
  case (1 n)
  then show ?case
    by (cases "n < 10") (simp_all add: show_nat_small show_nat_large decimal_digit del: show_nat.simps)
qed

lemma trailing_digits_after_space:
  "trailing_digits (xs @ CHR '' '' # show_nat n) = show_nat n"
proof -
  have "takeWhile py_isdecimal (rev (show_nat n) @ CHR '' '' # rev xs) = rev (show_nat n)"
  proof (rule trans [OF takeWhile_append2])
    show "py_isdecimal x" if "x \<in> set (rev (show_nat n))" for x
      using that show_nat_decimal [of n] by (simp add: list_all_iff del: show_nat.simps)
  qed (simp add: py_isdecimal_def)
  then show ?thesis by (simp add: trailing_digits_def del: show_nat.simps)
qed

lemma message_position_form:
  "error_position err = Some i \<Longrightarrow> \<exists>xs. message err = xs @ CHR '' '' # show_nat i"
  by (induction err rule: error_position.induct) (simp_all del: show_nat.simps)

text \<open>
  C29: every position a \<^verbatim>\<open>check_syntax\<close> message prints (tokenizer and validator
  errors alike) is the trailing decimal number of the message, and reading those digits
  back gives the position the code formatted: the message can be parsed for its position.
\<close>

theorem message_position_roundtrip:
  "error_position err = Some i \<Longrightarrow> read_nat (trailing_digits (message err)) = i"
  using message_position_form trailing_digits_after_space show_nat_read by metis

theorem message_position_roundtrip_witness:
  "error_position (Expected_after_operand Number 12) = Some 12 \<and>
   read_nat (trailing_digits (message (Expected_after_operand Number 12))) = 12"
  using message_position_roundtrip [of "Expected_after_operand Number 12" 12] by simp

subsection \<open>Positions are in range\<close>

lemma adjacency_error_at:
  assumes "adjacency_error tokens i prev tt = Some err" and "i < length tokens"
    and "error_position err = Some p"
  shows "i \<le> p \<and> p < length tokens \<and> error_token err = None"
  using assms by (auto simp: adjacency_error_def Let_def split: if_splits option.splits)

lemma bracket_step_at:
  "fst (bracket_step st t tt i) = Some err \<Longrightarrow> error_position err = Some i \<and> error_token err = Some t"
  by (auto simp: bracket_step_def Let_def split: if_splits)

lemma validate_loop_error_at:
  "validate_loop tokens i prev st = (Some err, st') \<Longrightarrow> error_position err = Some p \<Longrightarrow>
   i \<le> p \<and> p < length tokens \<and> (\<forall>t. error_token err = Some t \<longrightarrow> tokens ! p = t)"
proof (induction tokens i prev st rule: validate_loop.induct)
  case (1 tokens i prev st)
  have i: "i < length tokens"
    using "1.prems" by (cases "i < length tokens") (simp_all add: validate_loop_end)
  from validate_loop_Some_step [OF i "1.prems"(1)] show ?case
  proof (elim disjE exE conjE)
    fix tt assume "token_type_of (tokens ! i) = Some tt"
      and "adjacency_error tokens i prev tt = Some err"
    with adjacency_error_at [OF _ i "1.prems"(2)] show ?case by simp
  next
    fix tt assume "fst (bracket_step st (tokens ! i) tt i) = Some err"
    with bracket_step_at [of st "tokens ! i" tt i err] "1.prems"(2) i show ?case by simp
  next
    fix tt st'' assume tt: "token_type_of (tokens ! i) = Some tt"
      and g1: "\<not> (i = 0 \<and> tt = Operator \<and> tokens ! i \<noteq> ''-'')"
      and g2: "\<not> (prev = Some Function \<and> tt \<noteq> Open_bracket)"
      and adj: "adjacency_error tokens i prev tt = None"
      and br: "bracket_step st (tokens ! i) tt i = (None, st'')"
      and r: "validate_loop tokens (Suc i) (Some tt) st'' = (Some err, st')"
    from "1.IH" [OF i refl tt g1 g2 adj br [symmetric] refl r "1.prems"(2)] show ?case by simp
  qed (use i "1.prems"(2) in auto)
qed

lemma tokenize_error_bound:
  assumes "tokenize e = Inl err" and "error_position (Tokenize_error err) = Some p"
  shows "p < length e"
proof -
  have "tokenize_loop e i ts = Inl err \<Longrightarrow> p < length e" for i ts
  proof (induction "length e - i" arbitrary: i ts rule: less_induct)
    case less
    have i: "i < length e"
      using less.prems by (cases "i < length e") (simp_all add: tokenize_loop_end)
    from tokenize_loop_Inl_step [OF less.prems i] show ?case
    proof (elim disjE exE conjE)
      fix j assume "scan_number e j False = Inl err"
      from scan_number_Inl [OF this] assms(2) show ?case by auto
    next
      fix j ts' assume "i < j" and r: "tokenize_loop e j ts' = Inl err"
      then have "length e - j < length e - i" using i by simp
      from less.hyps [OF this r] show ?case .
    qed (use i assms(2) in simp)
  qed
  with assms(1) show ?thesis by (simp add: tokenize_def)
qed

lemma check_syntax_core_error_cases:
  assumes "check_syntax_core c e = (Some err, c')"
  shows "(\<exists>te. tokenize e = Inl te \<and> err = Tokenize_error te) \<or>
         (\<exists>ts st. tokenize e = Inr ts \<and> validate_loop ts 0 None [] = (Some err, st) \<and>
                  c' = c\<lparr>stack := st\<rparr>) \<or>
         (\<exists>ts st. tokenize e = Inr ts \<and> validate_loop ts 0 None [] = (None, st) \<and> st \<noteq> [] \<and>
                  err = Unmatched_opening st \<and> c' = c\<lparr>stack := st\<rparr>) \<or>
         (error_position err = None \<and> \<not> walk_error err \<and> (\<forall>te. err \<noteq> Tokenize_error te) \<and>
          (\<forall>st. err \<noteq> Unmatched_opening st) \<and> c' = c \<and>
          (err = Empty_expression \<longleftrightarrow> py_strip e = []))"
  using assms
  by (auto simp: check_syntax_core_def split: if_splits sum.splits option.splits prod.splits)

text \<open>
  C27: a position in an error of \<^verbatim>\<open>check_syntax\<close> is in range: a character offset
  of the input for a tokenizer error, an index of the token list for a validator error,
  and where the message quotes a token (unrecognized, unmatched closer, mismatched pair)
  it is the token at that index.
\<close>

theorem check_syntax_error_position_bound:
  assumes "check_syntax_core c e = (Some err, c')" and "error_position err = Some p"
  shows "case tokenize e of
           Inl _ \<Rightarrow> p < length e
         | Inr ts \<Rightarrow> p < length ts \<and> (\<forall>t. error_token err = Some t \<longrightarrow> ts ! p = t)"
  using check_syntax_core_error_cases [OF assms(1)]
proof (elim disjE exE conjE)
  fix te assume "tokenize e = Inl te" and "err = Tokenize_error te"
  with tokenize_error_bound [of e te p] assms(2) show ?thesis by simp
next
  fix ts st assume "tokenize e = Inr ts" and "validate_loop ts 0 None [] = (Some err, st)"
  with validate_loop_error_at [of ts 0 None "[]" err st p] assms(2) show ?thesis by simp
qed (use assms(2) in simp_all)

theorem check_syntax_error_position_bound_witness:
  "check_syntax_core init_checker ''(2 + 3))'' = (Some (Unmatched_closing '')'' 5), \<lparr>stack = []\<rparr>) \<and>
   tokenize ''(2 + 3))'' = Inr [''('', ''2'', ''+'', ''3'', '')'', '')''] \<and>
   5 < length [''('', ''2'', ''+'', ''3'', '')'', '')''] \<and>
   [''('', ''2'', ''+'', ''3'', '')'', '')''] ! 5 = '')''"
proof -
  have r: "check_syntax_core init_checker ''(2 + 3))'' = (Some (Unmatched_closing '')'' 5), \<lparr>stack = []\<rparr>)"
    by code_simp
  have t: "tokenize ''(2 + 3))'' = Inr [''('', ''2'', ''+'', ''3'', '')'', '')'']" by code_simp
  from check_syntax_error_position_bound [OF r] r t show ?thesis by simp
qed

subsection \<open>The bracket stack of a checker object\<close>

lemma closer_for_pair: "t \<in> opening_brackets \<Longrightarrow> bracket_pairs (closer_for t) = Some t"
  by (auto simp: opening_brackets_def bracket_pairs_def closer_for_def)

lemma match_run_close_all:
  "set st \<subseteq> opening_brackets \<Longrightarrow> match_run (xs @ st) (map closer_for (rev st)) = Some xs"
proof (induction st rule: rev_induct)
  case Nil
  then show ?case by simp
next
  case (snoc x st)
  from snoc.prems have x: "x \<in> opening_brackets" by simp
  from pair_closing_not_opening [OF closer_for_pair [OF x]]
  have "closer_for x \<in> closing_brackets" "closer_for x \<notin> opening_brackets" by simp_all
  with closer_for_pair [OF x] snoc show ?case by (simp add: butlast_append)
qed

lemma bracket_step_stack:
  assumes "token_type_of t = Some tt" and "bracket_step st t tt i = (r, st')"
  shows "set st' \<subseteq> set st \<union> opening_brackets"
  using assms token_type_of_Open_iff [of t] in_set_butlastD
  by (auto simp: bracket_step_def Let_def split: if_splits)

lemma validate_loop_stack:
  "validate_loop tokens i prev st = (r, st') \<Longrightarrow> set st' \<subseteq> set st \<union> opening_brackets"
proof (induction tokens i prev st arbitrary: r rule: validate_loop.induct)
  case (1 tokens i prev st)
  show ?case
  proof (cases "i < length tokens")
    case False
    with "1.prems" show ?thesis by (simp add: validate_loop_end)
  next
    case True
    show ?thesis
    proof (cases "token_type_of (tokens ! i)")
      case None
      with True "1.prems" show ?thesis by (subst (asm) validate_loop.simps) simp
    next
      case (Some tt)
      show ?thesis
      proof (cases "bracket_step st (tokens ! i) tt i")
        case (Pair r' st'')
        note bs = bracket_step_stack [OF Some Pair]
        show ?thesis
        proof (cases "r' = None \<and> \<not> (i = 0 \<and> tt = Operator \<and> tokens ! i \<noteq> ''-'') \<and>
                      \<not> (prev = Some Function \<and> tt \<noteq> Open_bracket) \<and>
                      adjacency_error tokens i prev tt = None")
          case True
          with \<open>i < length tokens\<close> Some Pair "1.prems"
          have "validate_loop tokens (Suc i) (Some tt) st'' = (r, st')"
            by (subst (asm) validate_loop.simps) simp
          with "1.IH" [OF \<open>i < length tokens\<close> refl Some] True Pair bs show ?thesis by fastforce
        next
          case False
          with \<open>i < length tokens\<close> Some Pair "1.prems" bs show ?thesis
            by (subst (asm) validate_loop.simps) (auto simp: Let_def split: option.splits if_splits)
        qed
      qed
    qed
  qed
qed

lemma check_syntax_snd_core: "snd (check_syntax c e) = snd (check_syntax_core c e)"
  by (simp add: check_syntax_def split: prod.splits option.splits)

lemma check_syntax_core_state:
  "snd (check_syntax_core c e) = c \<or>
   (\<exists>ts r st. validate_loop ts 0 None [] = (r, st) \<and> snd (check_syntax_core c e) = c\<lparr>stack := st\<rparr>)"
  by (auto simp: check_syntax_core_def split: sum.splits prod.splits option.splits)

lemma check_syntax_core_stack:
  "set (stack (snd (check_syntax_core c e))) \<subseteq> set (stack c) \<union> opening_brackets"
  using check_syntax_core_state [of c e] validate_loop_stack [of _ 0 None "[]"] by fastforce

text \<open>
  C28: on every checker object a client reaches by calls of \<^verbatim>\<open>check_syntax\<close>, the
  stack \<^verbatim>\<open>self.stack\<close> the last call left holds only opening brackets.
\<close>

theorem checker_reach_stack_openers: "checker_reach c \<Longrightarrow> set (stack c) \<subseteq> opening_brackets"
proof (induction rule: checker_reach.induct)
  case reach_init
  then show ?case by (simp add: init_checker_def)
next
  case (reach_call c e)
  with check_syntax_core_stack [of c e] show ?case by (auto simp: check_syntax_snd_core)
qed

theorem checker_reach_stack_openers_witness:
  "checker_reach (snd (check_syntax init_checker ''{(2 + 3'')) \<and>
   set (stack (snd (check_syntax init_checker ''{(2 + 3''))) \<subseteq> opening_brackets \<and>
   stack (snd (check_syntax init_checker ''{(2 + 3'')) = [''{'', ''('']"
proof -
  have r: "checker_reach (snd (check_syntax init_checker ''{(2 + 3''))"
    by (rule reach_call [OF reach_init])
  have s: "stack (snd (check_syntax init_checker ''{(2 + 3'')) = [''{'', ''('']" by code_simp
  from r s checker_reach_stack_openers [OF r] show ?thesis by simp
qed

lemma match_run_nested_completion:
  assumes "match_run [] ts = Some st" and "set st \<subseteq> opening_brackets"
  shows "nested (filter is_bracket ts @ map closer_for (rev st))"
proof -
  have cl: "list_all is_bracket (map closer_for (rev st))"
    using assms(2) pair_closing_not_opening [OF closer_for_pair]
    by (auto simp: list_all_iff is_bracket_def)
  have "match_run [] (ts @ map closer_for (rev st)) = Some []"
    using match_run_close_all [OF assms(2), of "[]"] assms(1) by (simp add: match_run_append)
  then have "nested (filter is_bracket (ts @ map closer_for (rev st)))"
    by (simp add: match_run_iff_nested)
  with cl show ?thesis by (simp add: list_all_iff)
qed

text \<open>
  C26: when \<^verbatim>\<open>check_syntax\<close> reports unmatched opening brackets, the list it prints is
  non-empty, is the stack left in the checker, and is exactly what is missing: appending
  the matching closers, innermost first, to the brackets of the input makes them
  properly nested.
\<close>

theorem check_syntax_unmatched_opening_completion:
  assumes "check_syntax_core c e = (Some (Unmatched_opening st), c')"
  shows "st \<noteq> [] \<and> stack c' = st \<and>
         nested (map (\<lambda>ch. [ch]) (filter bracket_char e) @ map closer_for (rev st))"
  using check_syntax_core_error_cases [OF assms]
proof (elim disjE exE conjE)
  fix ts st' assume "validate_loop ts 0 None [] = (Some (Unmatched_opening st), st')"
  from validate_loop_walk_error [OF this] show ?thesis by simp
next
  fix ts st' assume ts: "tokenize e = Inr ts" and run: "validate_loop ts 0 None [] = (None, st')"
    and ne: "st' \<noteq> []" and eq: "Unmatched_opening st = Unmatched_opening st'"
    and c': "c' = c\<lparr>stack := st'\<rparr>"
  from validate_loop_stack [OF run] have op: "set st' \<subseteq> opening_brackets" by simp
  from match_run_nested_completion [OF _ op] validate_loop_match_run [OF run]
  have "nested (filter is_bracket ts @ map closer_for (rev st'))" by simp
  with tokenize_bracket_tokens [OF ts] ne eq c' show ?thesis by simp
qed simp_all

theorem check_syntax_unmatched_opening_completion_witness:
  "check_syntax_core init_checker ''{(2 + 3'' =
     (Some (Unmatched_opening [''{'', ''('']), \<lparr>stack = [''{'', ''('']\<rparr>) \<and>
   nested [''{'', ''('', '')'', ''}'']"
proof -
  have r: "check_syntax_core init_checker ''{(2 + 3'' =
     (Some (Unmatched_opening [''{'', ''('']), \<lparr>stack = [''{'', ''('']\<rparr>)" by code_simp
  from check_syntax_unmatched_opening_completion [OF r] r show ?thesis
    by (simp add: closer_for_def bracket_char_def is_bracket_def opening_brackets_def closing_brackets_def)
qed

subsection \<open>Blank input\<close>

lemma message_Empty_iff: "message err = ''Error: Empty expression'' \<longleftrightarrow> err = Empty_expression"
  by (cases err rule: message.cases) (auto elim: tok_message.elims simp del: show_nat.simps)

lemma check_syntax_core_blank:
  "list_all py_isspace e \<Longrightarrow> check_syntax_core c e = (Some Empty_expression, c)"
  by (simp add: check_syntax_core_def py_strip_empty_iff)

lemma check_syntax_core_Empty:
  assumes "check_syntax_core c e = (Some Empty_expression, c')"
  shows "list_all py_isspace e"
  using check_syntax_core_error_cases [OF assms]
proof (elim disjE exE conjE)
  fix ts st assume "validate_loop ts 0 None [] = (Some Empty_expression, st)"
  from validate_loop_walk_error [OF this] show ?thesis by simp
qed (simp_all add: py_strip_empty_iff)

text \<open>
  C30: \<^verbatim>\<open>check_syntax\<close> answers \<^verbatim>\<open>Error: Empty expression\<close> exactly on the inputs made
  of white space only (the empty string included), and then leaves the checker as it was.
\<close>

theorem check_syntax_blank_iff:
  "(fst (check_syntax c e) = (False, ''Error: Empty expression'') \<longleftrightarrow> list_all py_isspace e) \<and>
   (list_all py_isspace e \<longrightarrow> snd (check_syntax c e) = c)"
proof -
  have "fst (check_syntax c e) = (False, ''Error: Empty expression'') \<Longrightarrow> list_all py_isspace e"
    using check_syntax_core_Empty [of c e]
    by (auto simp: check_syntax_def message_Empty_iff split: prod.splits option.splits)
  moreover have "list_all py_isspace e \<Longrightarrow> check_syntax c e = ((False, ''Error: Empty expression''), c)"
    by (simp add: check_syntax_def check_syntax_core_blank)
  ultimately show ?thesis by auto
qed

theorem check_syntax_blank_iff_witness:
  "fst (check_syntax \<lparr>stack = [''('']\<rparr> [CHR 0x09, CHR '' '', CHR 0x0A]) =
     (False, ''Error: Empty expression'') \<and>
   snd (check_syntax \<lparr>stack = [''('']\<rparr> [CHR 0x09, CHR '' '', CHR 0x0A]) = \<lparr>stack = [''('']\<rparr>"
proof -
  have b: "list_all py_isspace [CHR 0x09, CHR '' '', CHR 0x0A]" by (simp add: py_isspace_def)
  from check_syntax_blank_iff [of "\<lparr>stack = [''('']\<rparr>" "[CHR 0x09, CHR '' '', CHR 0x0A]"] b
  show ?thesis by simp
qed

end
