(* ===== verification/Composition.thy ===== *)
theory Composition
  imports Acceptance Number_Literals
begin

section \<open>Composing the tokenizer and the validator\<close>























end
