(* ===== verification/Spec2Isabelle.thy ===== *)
theory Spec2Isabelle
  imports Gui Tokenizer_Spec Walk Number_Literals Acceptance Diagnostics Composition
begin

text \<open>
  \<^bold>\<open>A verified model of the Math Syntax Checker (\<^verbatim>\<open>src/app.py\<close>).\<close>

  \<^bold>\<open>The program.\<close> One class, \<^verbatim>\<open>MathSyntaxChecker\<close>, checks that a string is a
  syntactically well-formed arithmetic expression. Its parts, in the order a call uses
  them: the tokenizer (\<^verbatim>\<open>tokenize\<close>, lines 35--107) turns the string into token
  texts or fails with a positioned lexical error; the classifier (\<^verbatim>\<open>is_number\<close>,
  \<^verbatim>\<open>is_variable\<close>, \<^verbatim>\<open>is_function\<close> and the vocabularies of \<^verbatim>\<open>__init__\<close>,
  lines 7--33) gives each token a category; the validator (\<^verbatim>\<open>check_syntax\<close>, lines
  109--227) checks the first tokens, then walks the tokens once with the previous category
  and a bracket stack held in the object (\<^verbatim>\<open>self.stack\<close>), and returns
  \<^verbatim>\<open>(valid, message)\<close> at the first violation. The Tkinter window (lines 230--388)
  reads the entry, calls \<^verbatim>\<open>check_syntax\<close> on a fresh checker and shows the verdict in
  a label; twelve example buttons insert an expression and check it.

  \<^bold>\<open>The library.\<close>
  \<^item> \<open>Prelude\<close>: the collections \<open>index_bounds\<close> and \<open>classify_simps\<close>,
    the names \<open>token\<close> and \<open>position\<close>, Python slices (\<open>slice\<close>) and list facts.
  \<^item> \<open>Py_Runtime\<close>: the Python built-ins the code calls, on code points below 256:
    \<open>py_isspace\<close>, \<open>py_isdigit\<close>, \<open>py_isalpha\<close>, \<open>py_isalnum\<close> (Python's
    Unicode tables on Latin-1, so the superscript digits are \<^verbatim>\<open>isdigit\<close>),
    \<open>py_strip\<close>, \<open>py_float_ok\<close> (the grammar \<^verbatim>\<open>float()\<close> accepts, which
    is what \<^verbatim>\<open>is_number\<close> tests), \<open>show_nat\<close> and \<open>py_join\<close> for the messages.
  \<^item> \<open>Classifier\<close>: \<open>valid_operators\<close>, \<open>opening_brackets\<close>,
    \<open>closing_brackets\<close>, \<open>bracket_pairs\<close>, \<open>valid_functions\<close>, \<open>is_number\<close>,
    \<open>is_variable\<close>, \<open>is_function\<close>, the datatype \<open>token_type\<close> and the two
    classification chains of \<^verbatim>\<open>check_syntax\<close> (\<open>token_type_of\<close>,
    \<open>unary_next_type\<close>).
  \<^item> \<open>Brackets\<close>: the specification of bracket nesting, the grammar \<open>nested\<close>, and
    the stack discipline \<open>match_run\<close> of lines 211--218 with the refinement
    \<open>match_run_iff_nested\<close>.
  \<^item> \<open>Tokenizer\<close>: one function per loop of \<^verbatim>\<open>tokenize\<close>
    (\<open>skip_spaces\<close>, \<open>scan_number\<close>, \<open>scan_ident\<close>, the outer
    \<open>tokenize_loop\<close>), each a \<^theory_text>\<open>function\<close> whose termination measure is the
    distance of the index to the end of the string; \<open>tokenize\<close> returns
    \<open>Inl tok_error\<close> or \<open>Inr tokens\<close>. Lemmas: the shape of a token (\<open>lexeme\<close>),
    one successful step and its induction rule, one failing step, and the claims: round
    trip, lexemes, decimal points, non-empty tokens, error positions, the closed form of
    \<open>scan_number\<close> and the bound on the number of tokens.
  \<^item> \<open>Tokenizer_Spec\<close>: the tokenizer of the specification (sign test on the last
    emitted token only) and the refinement \<open>tokenize_eq_spec\<close>, by the loop invariant
    \<open>lookback_inv\<close>.
  \<^item> \<open>Number_Literals\<close>: the number grammar of the specification
    (\<open>spec_number_literal\<close>) and the theorem that \<^verbatim>\<open>float\<close> accepts a number
    token of the tokenizer exactly when the grammar does, and that the tokens without a
    category are exactly the number tokens outside the grammar.
  \<^item> \<open>Validator\<close>: the record \<open>checker\<close> (the field \<open>stack\<close>), the datatype
    \<open>syntax_error\<close> with one constructor per \<^verbatim>\<open>return False\<close>,
    \<open>adjacency_error\<close> (lines 186--208), \<open>bracket_step\<close> (lines 211--218),
    \<open>validate_loop\<close> (the walk, lines 149--221), \<open>check_syntax_core\<close> and
    \<open>check_syntax\<close> (the whole method, returning the pair and the updated checker) and
    \<open>message\<close>, the texts of the f-strings. Claims: what a valid verdict implies
    (nested brackets, no trailing operator, functions followed by a bracket, no number
    after an operand), independence of the old stack, idempotence, dead branches.
  \<^item> \<open>Acceptance\<close>: the state machine of section 4.3 of the specification as a
    declarative condition on the token list (\<open>accepts\<close>: categories, first token, unary
    minus, \<open>transition_ok\<close> on every pair of neighbours, no trailing operator, nested
    brackets) and the refinement \<open>check_syntax_valid_iff_accepts\<close>: the walk with its
    early returns and its stack accepts exactly these token lists.
  \<^item> \<open>Walk\<close>: the same walk in its loop shape, \<^verbatim>\<open>while_option\<close> over the record
    \<open>walk_state\<close>; it terminates (a claim) and equals \<open>validate_loop\<close> (a lemma
    that ties the loop shape to the recursive model the other theorems use).
  \<^item> \<open>Gui\<close>: the window as a state machine: the record \<open>gui\<close> (entry text and
    result label), \<open>check_expression\<close>, \<open>insert_example\<close>, the button tables and
    grid, \<open>gui_step\<close> over the events of the main loop and the reachable states
    \<open>gui_reach\<close>. Claims: the label invariant, what an example button does, and
    that a run ending in a press shows the verdict of the entry.
  \<^item> \<open>Diagnostics\<close>: what a verdict reports beyond accept/reject. Reference
    functions read a message back (\<open>read_nat\<close>, \<open>trailing_digits\<close>,
    \<open>error_position\<close>, \<open>error_token\<close>, \<open>closer_for\<close>), and \<open>checker_reach\<close> is
    the inductive set of checker objects a client reaches by successive calls on one
    object. Claims:
    \<^item> the position a message prints reads back as the position the code formatted;
    \<^item> every position is in range and names the token it quotes;
    \<^item> the stack of a reachable checker holds only openers (rule induction);
    \<^item> the openers of an \<^verbatim>\<open>Unmatched opening brackets\<close> message are exactly the
      brackets missing for nesting;
    \<^item> blank input, and only blank input, is the \<^verbatim>\<open>Empty expression\<close> error, and it
      leaves the checker unchanged.
  \<^item> \<open>Composition\<close>: the tokenizer and the validator together over families of
    inputs. Appending a blank and more text to an expression first tokenizes the
    expression (\<open>tokenize_loop_append\<close>). Claims: a token containing a blank (a sign
    merged with its digits across blanks, lines 58--74) always makes the verdict invalid;
    a function name appended after a blank to an accepted expression keeps it accepted,
    so the function rule of line 174 never applies to the last token.
  \<^item> this theory: how identifier-shaped tokens are classified by \<^verbatim>\<open>float\<close>
    (\<^verbatim>\<open>inf\<close>, \<^verbatim>\<open>infinity\<close>, \<^verbatim>\<open>nan\<close> are numbers).

  \<^bold>\<open>Loops and bounds.\<close> Every loop of the code is a \<^theory_text>\<open>function\<close> with a measure
  (the distance of an index to the end of its list), so no fuel is needed; the walk is
  also given as \<^verbatim>\<open>while_option\<close> with a proof that it returns. Characters are
  \<open>char\<close> (code points 0--255).

  \<^bold>\<open>What is not modelled.\<close> Characters with code points of 256 and above, for which
  the string predicates would need Python's full Unicode tables; the two marks of the
  status text (U+2705, U+274C) are the constructors of \<open>Gui.mark\<close>. Of the window, the
  geometry, the grid configuration of the two button frames, fonts, frame and button
  colours, appearance mode and theme (lines 1--3, 258--281, 290--313, 331--354, 373--377,
  385--386): they hold no logic; the row and column each button is placed in are kept as
  fields of \<open>Gui.button\<close>.
\<close>

section \<open>The classifier\<close>

text \<open>
  C23: on identifier-shaped tokens, \<^verbatim>\<open>is_number\<close> (that is, \<^verbatim>\<open>float(token)\<close>
  succeeding) holds exactly for the names \<^verbatim>\<open>inf\<close>, \<^verbatim>\<open>infinity\<close> and
  \<^verbatim>\<open>nan\<close> in any letter case; since \<^verbatim>\<open>is_number\<close> is tested first, these
  identifiers are classified as numbers, not variables.
\<close>

theorem is_number_identifier:
  assumes "ident_lexeme t"
  shows "is_number t \<longleftrightarrow> map ascii_lower t \<in> {''inf'', ''infinity'', ''nan''}"
proof -
  from assms obtain c r where t: "t = c # r" and c: "py_isalpha c \<or> c = CHR ''_''"
    and r: "list_all ident_char r" by (cases t) auto
  have "\<not> py_isspace c" using c py_isalnum_not_space py_isalpha_isalnum
    by (auto simp: py_isspace_def)
  with r have ns: "list_all (\<lambda>x. \<not> py_isspace x) t"
    using t py_isalnum_not_space by (auto simp: list_all_iff py_isspace_def)
  have sign: "c \<noteq> CHR ''+'' \<and> c \<noteq> CHR ''-''" using c by (auto simp: py_isalpha_def)
  have "is_number t = is_abs_float t"
    using py_strip_no_space [OF ns] t sign by (simp add: is_number_def py_float_ok_def)
  also have "\<dots> \<longleftrightarrow> map ascii_lower t \<in> {''inf'', ''infinity'', ''nan''}"
    using ident_start_not_floatnumber [OF c] t by (simp add: is_abs_float_def)
  finally show ?thesis .
qed

theorem is_number_identifier_witness:
  "ident_lexeme ''NaN'' \<and> is_number ''NaN'' \<and> token_type_of ''NaN'' = Some Number"
proof -
  have i: "ident_lexeme ''NaN''" by (simp add: py_char_defs)
  have "map ascii_lower ''NaN'' = ''nan''" by (simp add: ascii_lower_def)
  with is_number_identifier [OF i] have n: "is_number ''NaN''" by simp
  with i show ?thesis by (simp add: token_type_of_def)
qed


end
